theory Spec2Isabelle
  imports Main "HOL-Library.Word" "HOL-Library.Sublist" "HOL-Library.Multiset"
begin

section \<open>JavaScript values of the dashboard\<close>

text \<open>
  The dashboard (\<^verbatim>\<open>src/frontend/src\<close>) is JavaScript. A JavaScript string is a sequence
  of UTF-16 code units; the values that arrive in a parsed JSON body are \<^verbatim>\<open>null\<close>,
  booleans, numbers, strings, arrays and objects, and \<^verbatim>\<open>undefined\<close> is what reading a
  missing property gives. Numbers are the integers (the counters and ids of the pages).
\<close>

type_synonym jstring = "16 word list"

definition js :: "string \<Rightarrow> jstring" where
  \<comment> \<open>an ASCII literal of the source as code units\<close>
  "js s = map (\<lambda>c. of_nat (of_char c)) s"

datatype jsval =
    JUndefined
  | JNull
  | JBool bool
  | JNum int
  | JStr jstring
  | JArr "jsval list"
  | JObj "(string \<times> jsval) list"

datatype js_error = TypeError | RequestFailed | ReactError

definition nullish :: "jsval \<Rightarrow> bool" where
  "nullish v = (v = JUndefined \<or> v = JNull)"

fun truthy :: "jsval \<Rightarrow> bool" where
  "truthy JUndefined = False"
| "truthy JNull = False"
| "truthy (JBool b) = b"
| "truthy (JNum n) = (n \<noteq> 0)"
| "truthy (JStr s) = (s \<noteq> [])"
| "truthy (JArr xs) = True"
| "truthy (JObj kvs) = True"

definition js_or :: "jsval \<Rightarrow> jsval \<Rightarrow> jsval" where
  \<comment> \<open>\<^verbatim>\<open>a || b\<close>\<close>
  "js_or a b = (if truthy a then a else b)"

fun own_prop :: "jsval \<Rightarrow> string \<Rightarrow> jsval" where
  \<comment> \<open>reading a data property of a non-nullish value; the keys the pages read
      (\<^verbatim>\<open>alerts\<close>, \<^verbatim>\<open>playbooks\<close>, \<^verbatim>\<open>severity\<close>, \<^verbatim>\<open>total_alerts\<close>, ...) are no built-in
      property of strings, numbers, booleans or arrays\<close>
  "own_prop (JObj kvs) k = (case map_of kvs k of None \<Rightarrow> JUndefined | Some v \<Rightarrow> v)"
| "own_prop v k = JUndefined"

definition get_prop :: "jsval \<Rightarrow> string \<Rightarrow> js_error + jsval" where
  \<comment> \<open>\<^verbatim>\<open>v.k\<close>: a TypeError on \<^verbatim>\<open>null\<close> and \<^verbatim>\<open>undefined\<close>\<close>
  "get_prop v k = (if nullish v then Inl TypeError else Inr (own_prop v k))"

definition opt_prop :: "jsval \<Rightarrow> string \<Rightarrow> jsval" where
  \<comment> \<open>\<^verbatim>\<open>v?.k\<close>: \<^verbatim>\<open>undefined\<close> on \<^verbatim>\<open>null\<close> and \<^verbatim>\<open>undefined\<close>\<close>
  "opt_prop v k = (if nullish v then JUndefined else own_prop v k)"

fun react_child :: "jsval \<Rightarrow> bool" where
  \<comment> \<open>what React accepts as a child \<^verbatim>\<open>{v}\<close> of an element: strings and numbers are shown,
      booleans, \<^verbatim>\<open>null\<close> and \<^verbatim>\<open>undefined\<close> show nothing, an array shows its elements, and
      an object makes React throw ("Objects are not valid as a React child")\<close>
  "react_child (JObj kvs) = False"
| "react_child (JArr xs) = list_all react_child xs"
| "react_child v = True"

subsection \<open>Case conversion of strings\<close>

text \<open>
  \<^verbatim>\<open>String.prototype.toLowerCase\<close> and \<^verbatim>\<open>toUpperCase\<close> are built into the language and
  follow the case mappings of the Unicode character database, code point by code point,
  independent of the locale. The model holds the mappings of Basic Latin (U+0000 to
  U+007F) and Latin-1 Supplement (U+0080 to U+00FF) in full, and those of U+0130 (capital
  I with dot above), U+0131 (dotless small i), U+017F (long s), U+0178 (capital Y with
  diaeresis) and U+212A (Kelvin sign) beyond them; every other code unit is left as it is.
  On strings of Basic Latin the model is the built-in exactly.
\<close>

definition lower_unit :: "16 word \<Rightarrow> jstring" where
  "lower_unit c =
     (if 0x41 \<le> c \<and> c \<le> 0x5A then [c + 0x20]
      else if 0xC0 \<le> c \<and> c \<le> 0xDE \<and> c \<noteq> 0xD7 then [c + 0x20]
      else if c = 0x130 then [0x69, 0x307]
      else if c = 0x178 then [0xFF]
      else if c = 0x212A then [0x6B]
      else [c])"

definition upper_unit :: "16 word \<Rightarrow> jstring" where
  "upper_unit c =
     (if 0x61 \<le> c \<and> c \<le> 0x7A then [c - 0x20]
      else if c = 0xB5 then [0x39C]
      else if c = 0xDF then [0x53, 0x53]
      else if 0xE0 \<le> c \<and> c \<le> 0xFE \<and> c \<noteq> 0xF7 then [c - 0x20]
      else if c = 0xFF then [0x178]
      else if c = 0x131 then [0x49]
      else if c = 0x17F then [0x53]
      else [c])"

definition toLowerCase :: "jstring \<Rightarrow> jstring" where
  "toLowerCase s = concat (map lower_unit s)"

definition toUpperCase :: "jstring \<Rightarrow> jstring" where
  "toUpperCase s = concat (map upper_unit s)"

definition ascii :: "jstring \<Rightarrow> bool" where
  "ascii s = list_all (\<lambda>c. c < 0x80) s"

section \<open>The Alerts page: \<^verbatim>\<open>getSeverityColor\<close>\<close>

definition getSeverityColor :: "jsval \<Rightarrow> js_error + string" where
  \<comment> \<open>\<^verbatim>\<open>switch (severity.toLowerCase())\<close>: only a string has the method, so the call
      is a TypeError on every other value\<close>
  "getSeverityColor severity =
     (case severity of
        JStr s \<Rightarrow>
          (let l = toLowerCase s in
           if l = js ''critical'' then Inr ''text-danger bg-danger/10 border-danger/20''
           else if l = js ''high'' then Inr ''text-orange-400 bg-orange-400/10 border-orange-400/20''
           else if l = js ''medium'' then Inr ''text-warning bg-warning/10 border-warning/20''
           else Inr ''text-blue-400 bg-blue-400/10 border-blue-400/20'')
      | _ \<Rightarrow> Inl TypeError)"


subsection \<open>The Alerts page: \<^verbatim>\<open>fetchAlerts\<close> and the table\<close>

text \<open>
  A service call is awaited inside \<^verbatim>\<open>try\<close>: its outcome is either the rejection of the
  promise (\<open>Inl\<close>) or the \<^verbatim>\<open>data\<close> of the response (\<open>Inr\<close>). The component's state is
  the pair of its \<^verbatim>\<open>useState\<close> cells. \<^verbatim>\<open>console.error\<close> writes to the console only and
  is left out.
\<close>

record alerts_state =
  alerts :: jsval
  alerts_loading :: bool

definition alerts_init :: alerts_state where
  "alerts_init = \<lparr>alerts = JArr [], alerts_loading = True\<rparr>"

definition mockAlerts :: jsval where
  "mockAlerts = JArr
     [JObj [(''id'', JNum 1), (''title'', JStr (js ''Suspicious Login Attempt'')),
            (''severity'', JStr (js ''high'')), (''status'', JStr (js ''open'')),
            (''source'', JStr (js ''Auth Service'')),
            (''created_at'', JStr (js ''2023-10-27T10:30:00Z''))],
      JObj [(''id'', JNum 2), (''title'', JStr (js ''Port Scan Detected'')),
            (''severity'', JStr (js ''medium'')), (''status'', JStr (js ''investigating'')),
            (''source'', JStr (js ''Firewall'')),
            (''created_at'', JStr (js ''2023-10-27T09:15:00Z''))],
      JObj [(''id'', JNum 3), (''title'', JStr (js ''Malware Signature Match'')),
            (''severity'', JStr (js ''critical'')), (''status'', JStr (js ''open'')),
            (''source'', JStr (js ''EDR'')),
            (''created_at'', JStr (js ''2023-10-27T08:45:00Z''))]]"

definition fetchAlerts_try :: "js_error + jsval \<Rightarrow> alerts_state \<Rightarrow> js_error + alerts_state" where
  \<comment> \<open>the \<^verbatim>\<open>try\<close> block: \<^verbatim>\<open>setAlerts(response.data.alerts || [])\<close>\<close>
  "fetchAlerts_try result st =
     (case result of
        Inl e \<Rightarrow> Inl e
      | Inr d \<Rightarrow>
          (case get_prop d ''alerts'' of
             Inl e \<Rightarrow> Inl e
           | Inr v \<Rightarrow> Inr (st\<lparr>alerts := js_or v (JArr [])\<rparr>)))"

definition fetchAlerts :: "js_error + jsval \<Rightarrow> alerts_state \<Rightarrow> js_error + alerts_state" where
  \<comment> \<open>\<^verbatim>\<open>try\<close>, then \<^verbatim>\<open>catch\<close> (the mock data), then \<^verbatim>\<open>finally\<close> (\<^verbatim>\<open>setLoading(false)\<close>);
      \<open>Inl\<close> would be an exception leaving the handler\<close>
  "fetchAlerts result st =
     (let caught = (case fetchAlerts_try result st of
                      Inl e \<Rightarrow> Inr (st\<lparr>alerts := mockAlerts\<rparr>)
                    | Inr st' \<Rightarrow> Inr st')
      in map_sum id (\<lambda>st'. st'\<lparr>alerts_loading := False\<rparr>) caught)"

record alert_row =
  row_key :: jsval
  row_class :: string
  row_severity :: jsval
  row_title :: jsval
  row_source :: jsval
  row_status :: jsval
  row_created_at :: jsval

definition render_alert :: "jsval \<Rightarrow> js_error + alert_row" where
  \<comment> \<open>one \<^verbatim>\<open><tr>\<close> of the table, its cells in the order the source reads them; the time
      cell keeps \<^verbatim>\<open>created_at\<close> (its formatting depends on the locale)\<close>
  "render_alert a =
     (if nullish a then Inl TypeError
      else case getSeverityColor (own_prop a ''severity'') of
             Inl e \<Rightarrow> Inl e
           | Inr cls \<Rightarrow>
               Inr \<lparr>row_key = own_prop a ''id'', row_class = cls,
                    row_severity = own_prop a ''severity'', row_title = own_prop a ''title'',
                    row_source = own_prop a ''source'', row_status = own_prop a ''status'',
                    row_created_at = own_prop a ''created_at''\<rparr>)"

fun render_all :: "('a \<Rightarrow> js_error + 'b) \<Rightarrow> 'a list \<Rightarrow> js_error + 'b list" where
  \<comment> \<open>\<^verbatim>\<open>xs.map(f)\<close> where \<open>f\<close> may throw: the first exception ends the rendering\<close>
  "render_all f [] = Inr []"
| "render_all f (x # xs) =
     (case f x of
        Inl e \<Rightarrow> Inl e
      | Inr y \<Rightarrow> (case render_all f xs of Inl e \<Rightarrow> Inl e | Inr ys \<Rightarrow> Inr (y # ys)))"

definition row_children :: "alert_row \<Rightarrow> bool" where
  \<comment> \<open>the cells that show a value of the alert as it is\<close>
  "row_children r =
     (react_child (row_severity r) \<and> react_child (row_title r) \<and> react_child (row_source r)
      \<and> react_child (row_status r))"

definition render_alerts :: "alerts_state \<Rightarrow> js_error + alert_row list" where
  \<comment> \<open>\<^verbatim>\<open>alerts.map(...)\<close>: only an array has \<^verbatim>\<open>map\<close>; the page does not read \<^verbatim>\<open>loading\<close>.
      The component builds every row first; React then mounts the cells and throws on a
      cell that is an object\<close>
  "render_alerts st =
     (case alerts st of
        JArr xs \<Rightarrow>
          (case render_all render_alert xs of
             Inl e \<Rightarrow> Inl e
           | Inr rows \<Rightarrow> if list_all row_children rows then Inr rows else Inl ReactError)
      | _ \<Rightarrow> Inl TypeError)"

section \<open>The Playbooks page\<close>

record playbooks_state =
  playbooks :: jsval
  playbooks_loading :: bool
  selectedPlaybook :: jsval

definition playbooks_init :: playbooks_state where
  "playbooks_init = \<lparr>playbooks = JArr [], playbooks_loading = True, selectedPlaybook = JNull\<rparr>"

definition fetchPlaybooks_try ::
  "js_error + jsval \<Rightarrow> playbooks_state \<Rightarrow> js_error + playbooks_state" where
  "fetchPlaybooks_try result st =
     (case result of
        Inl e \<Rightarrow> Inl e
      | Inr d \<Rightarrow>
          (case get_prop d ''playbooks'' of
             Inl e \<Rightarrow> Inl e
           | Inr v \<Rightarrow> Inr (st\<lparr>playbooks := js_or v (JArr [])\<rparr>)))"

definition fetchPlaybooks ::
  "js_error + jsval \<Rightarrow> playbooks_state \<Rightarrow> js_error + playbooks_state" where
  \<comment> \<open>the \<^verbatim>\<open>catch\<close> only logs: the state keeps what it had\<close>
  "fetchPlaybooks result st =
     (let caught = (case fetchPlaybooks_try result st of
                      Inl e \<Rightarrow> Inr st
                    | Inr st' \<Rightarrow> Inr st')
      in map_sum id (\<lambda>st'. st'\<lparr>playbooks_loading := False\<rparr>) caught)"

record playbook_card =
  card_key :: jsval
  card_badge :: string
  card_name :: jsval
  card_description :: jsval
  card_last_run :: jsval

definition render_playbook :: "jsval \<Rightarrow> js_error + playbook_card" where
  \<comment> \<open>one card of the grid; the date cell keeps \<^verbatim>\<open>last_executed_at\<close>\<close>
  "render_playbook p =
     (if nullish p then Inl TypeError
      else Inr \<lparr>card_key = own_prop p ''id'',
                card_badge = (if truthy (own_prop p ''active'') then ''ACTIVE'' else ''INACTIVE''),
                card_name = own_prop p ''name'',
                card_description = own_prop p ''description'',
                card_last_run = own_prop p ''last_executed_at''\<rparr>)"

definition card_children :: "playbook_card \<Rightarrow> bool" where
  \<comment> \<open>the name and the description are shown as they are\<close>
  "card_children c = (react_child (card_name c) \<and> react_child (card_description c))"

definition render_playbooks :: "playbooks_state \<Rightarrow> js_error + playbook_card list" where
  \<comment> \<open>the grid of cards, \<^verbatim>\<open>playbooks.map(...)\<close>\<close>
  "render_playbooks st =
     (case playbooks st of
        JArr xs \<Rightarrow>
          (case render_all render_playbook xs of
             Inl e \<Rightarrow> Inl e
           | Inr cards \<Rightarrow> if list_all card_children cards then Inr cards else Inl ReactError)
      | _ \<Rightarrow> Inl TypeError)"

section \<open>The Dashboard page\<close>

record dashboard_state =
  stats :: jsval
  stats_loading :: bool

definition dashboard_init :: dashboard_state where
  "dashboard_init = \<lparr>stats = JNull, stats_loading = True\<rparr>"

definition fallbackStats :: jsval where
  \<comment> \<open>"Fallback mock data for demo if backend is offline"\<close>
  "fallbackStats = JObj
     [(''total_alerts'', JNum 124),
      (''by_severity'', JObj [(''critical'', JNum 12), (''high'', JNum 28),
                              (''medium'', JNum 45), (''low'', JNum 39)]),
      (''by_status'', JObj [(''open'', JNum 42), (''investigating'', JNum 15),
                            (''resolved'', JNum 67)]),
      (''active_incidents'', JNum 3)]"

definition fetchStats_try ::
  "js_error + jsval \<Rightarrow> dashboard_state \<Rightarrow> js_error + dashboard_state" where
  \<comment> \<open>\<^verbatim>\<open>setStats(response.data)\<close>\<close>
  "fetchStats_try result st =
     (case result of Inl e \<Rightarrow> Inl e | Inr d \<Rightarrow> Inr (st\<lparr>stats := d\<rparr>))"

definition fetchStats ::
  "js_error + jsval \<Rightarrow> dashboard_state \<Rightarrow> js_error + dashboard_state" where
  "fetchStats result st =
     (let caught = (case fetchStats_try result st of
                      Inl e \<Rightarrow> Inr (st\<lparr>stats := fallbackStats\<rparr>)
                    | Inr st' \<Rightarrow> Inr st')
      in map_sum id (\<lambda>st'. st'\<lparr>stats_loading := False\<rparr>) caught)"

record stat_cards =
  total_alerts_card :: jsval
  critical_threats_card :: jsval
  active_incidents_card :: jsval
  resolved_today_card :: jsval

datatype dashboard_view = LoadingMetrics | Metrics stat_cards

definition stat_values :: "dashboard_state \<Rightarrow> stat_cards" where
  \<comment> \<open>the \<^verbatim>\<open>value\<close> of the four \<^verbatim>\<open>StatCard\<close>s\<close>
  "stat_values st =
     \<lparr>total_alerts_card = js_or (opt_prop (stats st) ''total_alerts'') (JNum 0),
      critical_threats_card =
        js_or (opt_prop (opt_prop (stats st) ''by_severity'') ''critical'') (JNum 0),
      active_incidents_card = js_or (opt_prop (stats st) ''active_incidents'') (JNum 0),
      resolved_today_card =
        js_or (opt_prop (opt_prop (stats st) ''by_status'') ''resolved'') (JNum 0)\<rparr>"

definition cards_children :: "stat_cards \<Rightarrow> bool" where
  \<comment> \<open>each \<^verbatim>\<open>StatCard\<close> shows its \<^verbatim>\<open>value\<close> as a child\<close>
  "cards_children c =
     (react_child (total_alerts_card c) \<and> react_child (critical_threats_card c)
      \<and> react_child (active_incidents_card c) \<and> react_child (resolved_today_card c))"

definition render_dashboard :: "dashboard_state \<Rightarrow> js_error + dashboard_view" where
  \<comment> \<open>the loading line while \<^verbatim>\<open>loading\<close>, the four cards after; React throws on a card
      whose value is an object\<close>
  "render_dashboard st =
     (if stats_loading st then Inr LoadingMetrics
      else if cards_children (stat_values st) then Inr (Metrics (stat_values st))
      else Inl ReactError)"

section \<open>The API client: \<^verbatim>\<open>services/api.js\<close>\<close>

text \<open>
  A template literal converts the interpolated value to a string (ToString): a number to
  its decimal digits, an array to its elements joined by commas with \<^verbatim>\<open>null\<close> and
  \<^verbatim>\<open>undefined\<close> elements empty, an object of JSON to \<^verbatim>\<open>[object Object]\<close>. The numbers of the
  model are the integers that a JavaScript number holds exactly and prints digit by digit,
  those below \<open>2\<^sup>5\<^sup>3\<close> in magnitude; from \<open>10\<^sup>2\<^sup>1\<close> on the language prints an exponent form
  (\<^verbatim>\<open>1e+21\<close>), which \<open>decimal\<close> does not follow.
\<close>

fun decimal :: "nat \<Rightarrow> jstring" where
  "decimal n =
     (if n < 10 then [of_nat (48 + n)]
      else decimal (n div 10) @ [of_nat (48 + n mod 10)])"

declare decimal.simps [simp del]

fun join_comma :: "jstring list \<Rightarrow> jstring" where
  "join_comma [] = []"
| "join_comma [x] = x"
| "join_comma (x # y # ys) = x @ js '','' @ join_comma (y # ys)"

fun to_string :: "jsval \<Rightarrow> jstring" where
  "to_string JUndefined = js ''undefined''"
| "to_string JNull = js ''null''"
| "to_string (JBool b) = (if b then js ''true'' else js ''false'')"
| "to_string (JNum n) = (if n < 0 then js ''-'' @ decimal (nat (- n)) else decimal (nat n))"
| "to_string (JStr s) = s"
| "to_string (JArr xs) =
     join_comma (map (\<lambda>x. if x = JUndefined \<or> x = JNull then [] else to_string x) xs)"
| "to_string (JObj kvs) = js ''[object Object]''"

datatype verb = GET | POST | PUT

record request =
  req_method :: verb
  req_baseURL :: jstring
  req_content_type :: jstring
  req_url :: jstring
  req_params :: jsval
  req_data :: jsval

definition api :: "verb \<Rightarrow> jstring \<Rightarrow> jsval \<Rightarrow> jsval \<Rightarrow> request" where
  \<comment> \<open>the instance of \<^verbatim>\<open>axios.create\<close>: every request carries its base URL and header\<close>
  "api m url params body =
     \<lparr>req_method = m, req_baseURL = js ''/api/v1'', req_content_type = js ''application/json'',
      req_url = url, req_params = params, req_data = body\<rparr>"

definition api_get :: "jstring \<Rightarrow> jsval \<Rightarrow> request" where
  \<comment> \<open>\<^verbatim>\<open>api.get(url, { params })\<close>\<close>
  "api_get url params = api GET url params JUndefined"

definition api_post :: "jstring \<Rightarrow> jsval \<Rightarrow> request" where
  \<comment> \<open>\<^verbatim>\<open>api.post(url, data)\<close>\<close>
  "api_post url body = api POST url JUndefined body"

definition api_put :: "jstring \<Rightarrow> jsval \<Rightarrow> request" where
  \<comment> \<open>\<^verbatim>\<open>api.put(url, data)\<close>\<close>
  "api_put url body = api PUT url JUndefined body"

subsection \<open>\<^verbatim>\<open>alertService\<close>\<close>

definition getStats :: request where
  "getStats = api_get (js ''/alerts/statistics'') JUndefined"

definition getAlerts :: "jsval \<Rightarrow> request" where
  "getAlerts params = api_get (js ''/alerts'') params"

definition getAlert :: "jsval \<Rightarrow> request" where
  "getAlert ident = api_get (js ''/alerts/'' @ to_string ident) JUndefined"

definition createAlert :: "jsval \<Rightarrow> request" where
  "createAlert body = api_post (js ''/alerts'') body"

definition updateAlert :: "jsval \<Rightarrow> jsval \<Rightarrow> request" where
  "updateAlert ident body = api_put (js ''/alerts/'' @ to_string ident) body"

subsection \<open>\<^verbatim>\<open>playbookService\<close>\<close>

definition getPlaybooks :: request where
  "getPlaybooks = api_get (js ''/playbooks'') JUndefined"

definition getPlaybook :: "jsval \<Rightarrow> request" where
  "getPlaybook ident = api_get (js ''/playbooks/'' @ to_string ident) JUndefined"

definition runPlaybook :: "jsval \<Rightarrow> request" where
  "runPlaybook ident = api_post (js ''/playbooks/'' @ to_string ident @ js ''/execute'') JUndefined"

subsection \<open>The calls the two service objects export\<close>

datatype client_call =
    GetStats
  | GetAlerts jsval
  | GetAlert jsval
  | CreateAlert jsval
  | UpdateAlert jsval jsval
  | GetPlaybooks
  | GetPlaybook jsval
  | RunPlaybook jsval

fun invoke :: "client_call \<Rightarrow> request" where
  "invoke GetStats = getStats"
| "invoke (GetAlerts params) = getAlerts params"
| "invoke (GetAlert ident) = getAlert ident"
| "invoke (CreateAlert body) = createAlert body"
| "invoke (UpdateAlert ident body) = updateAlert ident body"
| "invoke GetPlaybooks = getPlaybooks"
| "invoke (GetPlaybook ident) = getPlaybook ident"
| "invoke (RunPlaybook ident) = runPlaybook ident"


section \<open>The Playbook Execution Engine\<close>

text \<open>
  Modelled from the spec: the backend behind the REST endpoints (Trigger Evaluator,
  Execution Engine, Statistics Aggregator) is not among the source files; only its caller,
  the API client above, is. The definitions of this section follow sections 3 to 5 of the
  specification.
\<close>

subsection \<open>Alerts and trigger conditions\<close>

datatype severity = Low | Medium | High | Critical

fun severity_rank :: "severity \<Rightarrow> nat" where
  \<comment> \<open>Modelled from the spec: the total order low < medium < high < critical\<close>
  "severity_rank Low = 0"
| "severity_rank Medium = 1"
| "severity_rank High = 2"
| "severity_rank Critical = 3"

datatype status = Open | Investigating | Resolved

datatype scalar = SStr string | SInt int | SBool bool

record alert =
  alert_id :: nat
  alert_title :: string
  alert_severity :: severity
  alert_status :: status
  alert_source :: string
  created_at :: nat
  updated_at :: nat
  attributes :: "(string \<times> scalar) list"

datatype field_ref = Title | Severity | Status | Source | Attribute string

datatype predicate =
    Equals field_ref scalar
  | InSet field_ref "scalar list"
  | SeverityGte severity
  | SeverityLte severity

datatype condition =
    Predicate predicate
  | CAnd condition condition
  | COr condition condition
  | CNot condition

fun severity_name :: "severity \<Rightarrow> string" where
  "severity_name Low = ''low''"
| "severity_name Medium = ''medium''"
| "severity_name High = ''high''"
| "severity_name Critical = ''critical''"

fun status_name :: "status \<Rightarrow> string" where
  "status_name Open = ''open''"
| "status_name Investigating = ''investigating''"
| "status_name Resolved = ''resolved''"

fun resolve :: "alert \<Rightarrow> field_ref \<Rightarrow> scalar option" where
  \<comment> \<open>Modelled from the spec: a reference to an alert field or to a key of the attribute
      map; an unknown attribute has no value\<close>
  "resolve a Title = Some (SStr (alert_title a))"
| "resolve a Severity = Some (SStr (severity_name (alert_severity a)))"
| "resolve a Status = Some (SStr (status_name (alert_status a)))"
| "resolve a Source = Some (SStr (alert_source a))"
| "resolve a (Attribute k) = map_of (attributes a) k"

fun holds :: "alert \<Rightarrow> predicate \<Rightarrow> bool" where
  \<comment> \<open>Modelled from the spec: the predicates equals, in-set and gte/lte on severity; an
      unknown attribute reference makes its predicate not satisfied\<close>
  "holds a (Equals f v) = (case resolve a f of None \<Rightarrow> False | Some w \<Rightarrow> w = v)"
| "holds a (InSet f vs) = (case resolve a f of None \<Rightarrow> False | Some w \<Rightarrow> List.member vs w)"
| "holds a (SeverityGte s) = (severity_rank s \<le> severity_rank (alert_severity a))"
| "holds a (SeverityLte s) = (severity_rank (alert_severity a) \<le> severity_rank s)"

fun evaluate :: "alert \<Rightarrow> condition \<Rightarrow> bool" where
  \<comment> \<open>Modelled from the spec: \<^verbatim>\<open>evaluate(alert, condition) -> bool\<close>, the recursive
      interpretation of the condition tree\<close>
  "evaluate a (Predicate p) = holds a p"
| "evaluate a (CAnd c d) = (evaluate a c \<and> evaluate a d)"
| "evaluate a (COr c d) = (evaluate a c \<or> evaluate a d)"
| "evaluate a (CNot c) = (\<not> evaluate a c)"


subsection \<open>Playbooks, runs and step results\<close>

datatype action = Notify | Tag | BlockIp | QuarantineHost | Escalate | RunScript | Wait

record step =
  step_order :: nat
  step_action :: action
  step_params :: "(string \<times> scalar) list"
  step_timeout :: "nat option"
  step_retry :: nat

record playbook =
  playbook_id :: nat
  playbook_name :: string
  enabled :: bool
  trigger :: condition
  steps :: "step list"

datatype run_state = Pending | Running | Completed | Failed | Cancelled

datatype outcome = Success | Failure | Skipped | TimedOut

record step_result =
  step_index :: nat
  result_outcome :: outcome
  attempts :: nat

record execution_run =
  run_id :: nat
  run_playbook :: nat
  run_alert :: nat
  run_state :: run_state
  results :: "step_result list"
  cancel_requested :: bool

record engine =
  eng_playbooks :: "playbook list"
  eng_runs :: "execution_run list"
  eng_next_id :: nat

datatype engine_error = NotFound

definition active :: "execution_run \<Rightarrow> bool" where
  \<comment> \<open>Modelled from the spec: an active run is Pending or Running\<close>
  "active r = (run_state r = Pending \<or> run_state r = Running)"

definition ordered_steps :: "playbook \<Rightarrow> step list" where
  \<comment> \<open>Modelled from the spec: the steps in ascending order index\<close>
  "ordered_steps p = sort_key step_order (steps p)"

definition is_failure :: "outcome \<Rightarrow> bool" where
  \<comment> \<open>Modelled from the spec: TimedOut is treated as a failure\<close>
  "is_failure out = (out = Failure \<or> out = TimedOut)"

fun attempt :: "(nat \<Rightarrow> outcome) \<Rightarrow> nat \<Rightarrow> nat \<Rightarrow> outcome \<times> nat" where
  \<comment> \<open>Modelled from the spec: a step is retried up to its retry count and the outcome of
      the final attempt counts; \<open>outs n\<close> is what the handler reports at attempt \<open>n\<close>, the
      second argument the retries left; the result is the outcome and the attempt count\<close>
  "attempt outs 0 n = (outs n, Suc n)"
| "attempt outs (Suc k) n =
     (if is_failure (outs n) then attempt outs k (Suc n) else (outs n, Suc n))"

definition skip_rest :: "step list \<Rightarrow> nat \<Rightarrow> step_result list" where
  \<comment> \<open>Modelled from the spec: the steps from position \<open>k\<close> of the sequence on, each
      marked Skipped under its order index\<close>
  "skip_rest sts k =
     map (\<lambda>s. \<lparr>step_index = step_order s, result_outcome = Skipped, attempts = 0\<rparr>) (drop k sts)"

definition advance :: "step list \<Rightarrow> (nat \<Rightarrow> outcome) \<Rightarrow> execution_run \<Rightarrow> execution_run" where
  \<comment> \<open>Modelled from the spec: one move of a run's worker, between two steps. It consults
      the cancel flag first; a Pending run starts; a Running run executes its next step
      with its retries and records the result under the step's order index, fails when the
      step failed, and completes when no step is left\<close>
  "advance sts outs r =
     (if \<not> active r then r
      else if cancel_requested r then
        r\<lparr>run_state := Cancelled, results := results r @ skip_rest sts (length (results r))\<rparr>
      else if run_state r = Pending then r\<lparr>run_state := Running\<rparr>
      else (case drop (length (results r)) sts of
              [] \<Rightarrow> r\<lparr>run_state := Completed\<rparr>
            | s # rest \<Rightarrow>
                (let (out, n) = attempt outs (step_retry s) 0;
                     r' = r\<lparr>results := results r @
                            [\<lparr>step_index = step_order s, result_outcome = out,
                              attempts = n\<rparr>]\<rparr>
                 in if is_failure out then r'\<lparr>run_state := Failed\<rparr> else r')))"

definition cancel :: "execution_run \<Rightarrow> execution_run" where
  \<comment> \<open>Modelled from the spec: a cancel request sets the flag of an active run and is a
      no-op on a Completed, Failed or Cancelled one\<close>
  "cancel r = (if active r then r\<lparr>cancel_requested := True\<rparr> else r)"

subsection \<open>Admission and the engine's events\<close>

definition same_pair :: "nat \<Rightarrow> nat \<Rightarrow> execution_run \<Rightarrow> bool" where
  \<comment> \<open>Modelled from the spec: the run belongs to the (playbook, alert) pair\<close>
  "same_pair pid aid r = (run_playbook r = pid \<and> run_alert r = aid)"

definition active_for :: "nat \<Rightarrow> nat \<Rightarrow> execution_run \<Rightarrow> bool" where
  \<comment> \<open>Modelled from the spec: an active run of the pair\<close>
  "active_for pid aid r = (same_pair pid aid r \<and> active r)"

definition admit :: "nat \<Rightarrow> nat \<Rightarrow> engine \<Rightarrow> engine" where
  \<comment> \<open>Modelled from the spec: admission under the lock keyed by the (playbook, alert)
      pair: a request that finds an active run of the pair is coalesced, any other creates
      one Pending run\<close>
  "admit pid aid e =
     (if list_ex (active_for pid aid) (eng_runs e) then e
      else e\<lparr>eng_runs := eng_runs e @
                [\<lparr>run_id = eng_next_id e, run_playbook = pid, run_alert = aid,
                  run_state = Pending, results = [], cancel_requested = False\<rparr>],
              eng_next_id := Suc (eng_next_id e)\<rparr>)"

definition matching :: "engine \<Rightarrow> alert \<Rightarrow> playbook list" where
  \<comment> \<open>Modelled from the spec: every enabled playbook whose condition the alert satisfies,
      identified before any run is started\<close>
  "matching e a = filter (\<lambda>p. enabled p \<and> evaluate a (trigger p)) (eng_playbooks e)"

definition find_playbook :: "engine \<Rightarrow> nat \<Rightarrow> playbook option" where
  \<comment> \<open>Modelled from the spec: the playbook of a given id, if any\<close>
  "find_playbook e pid = find (\<lambda>p. playbook_id p = pid) (eng_playbooks e)"

definition on_run :: "nat \<Rightarrow> (execution_run \<Rightarrow> execution_run) \<Rightarrow> engine \<Rightarrow> engine_error + engine" where
  \<comment> \<open>Modelled from the spec: an operation on the run of a given id; NotFound for an
      unknown id\<close>
  "on_run rid f e =
     (if list_ex (\<lambda>r. run_id r = rid) (eng_runs e)
      then Inr (e\<lparr>eng_runs := map (\<lambda>r. if run_id r = rid then f r else r) (eng_runs e)\<rparr>)
      else Inl NotFound)"

definition run_steps :: "engine \<Rightarrow> execution_run \<Rightarrow> step list" where
  \<comment> \<open>Modelled from the spec: the step sequence that a run executes, its playbook's\<close>
  "run_steps e r = (case find_playbook e (run_playbook r) of None \<Rightarrow> [] | Some p \<Rightarrow> ordered_steps p)"

datatype event =
    AlertEvent alert
  | Execute nat nat
  | Advance nat "nat \<Rightarrow> outcome"
  | Cancel nat

fun engine_step :: "engine \<Rightarrow> event \<Rightarrow> engine_error + engine" where
  \<comment> \<open>Modelled from the spec: the events of the engine, one at a time. An alert created
      or updated triggers every matching playbook; \<^verbatim>\<open>POST /playbooks/{id}/execute\<close> admits
      a run by hand under the same rule; a worker advances its run; a run is cancelled by
      its id\<close>
  "engine_step e (AlertEvent a) =
     Inr (fold (\<lambda>p. admit (playbook_id p) (alert_id a)) (matching e a) e)"
| "engine_step e (Execute pid aid) =
     (case find_playbook e pid of None \<Rightarrow> Inl NotFound | Some p \<Rightarrow> Inr (admit pid aid e))"
| "engine_step e (Advance rid outs) = on_run rid (\<lambda>r. advance (run_steps e r) outs r) e"
| "engine_step e (Cancel rid) = on_run rid cancel e"

inductive reachable :: "engine \<Rightarrow> bool" where
  \<comment> \<open>the states of an engine that started with no run\<close>
  start: "eng_runs e = [] \<Longrightarrow> reachable e"
| step: "reachable e \<Longrightarrow> engine_step e ev = Inr e' \<Longrightarrow> reachable e'"

fun run_events :: "engine \<Rightarrow> event list \<Rightarrow> engine_error + engine" where
  \<comment> \<open>a sequence of events; it stops at the first that is refused\<close>
  "run_events e [] = Inr e"
| "run_events e (ev # evs) =
     (case engine_step e ev of Inl err \<Rightarrow> Inl err | Inr e' \<Rightarrow> run_events e' evs)"

definition one_active :: "engine \<Rightarrow> bool" where
  \<comment> \<open>the admission invariant: no pair has two active runs\<close>
  "one_active e = (\<forall>pid aid. length (filter (active_for pid aid) (eng_runs e)) \<le> 1)"

definition results_ok :: "step list \<Rightarrow> execution_run \<Rightarrow> bool" where
  \<comment> \<open>the results of a run are those of the first steps of the sequence, in order\<close>
  "results_ok sts r =
     (map step_index (results r) = map step_order (take (length (results r)) sts)
      \<and> length (results r) \<le> length sts)"

definition prefix_inv :: "engine \<Rightarrow> bool" where
  \<comment> \<open>every run of the engine has the results of the first steps of its playbook\<close>
  "prefix_inv e = (\<forall>r\<in>set (eng_runs e). results_ok (run_steps e r) r)"

definition has_playbook :: "engine \<Rightarrow> bool" where
  \<comment> \<open>every run of the engine is a run of one of its playbooks\<close>
  "has_playbook e = (\<forall>r\<in>set (eng_runs e). find_playbook e (run_playbook r) \<noteq> None)"

subsection \<open>A scenario of the specification\<close>

text \<open>
  Section 8 of the specification: a critical alert of source EDR and a playbook that
  fires from severity high on, with the steps quarantine-host (order index 1) and notify
  (order index 2, with two retries). The playbook holds notify first: the engine puts the
  steps in ascending order index.
\<close>

definition scenario_playbook :: playbook where
  "scenario_playbook =
     \<lparr>playbook_id = 1, playbook_name = ''contain'', enabled = True,
      trigger = Predicate (SeverityGte High),
      steps = [\<lparr>step_order = 2, step_action = Notify, step_params = [],
                step_timeout = None, step_retry = 2\<rparr>,
               \<lparr>step_order = 1, step_action = QuarantineHost, step_params = [],
                step_timeout = None, step_retry = 0\<rparr>]\<rparr>"

definition scenario_alert :: alert where
  "scenario_alert =
     \<lparr>alert_id = 7, alert_title = ''Malware Signature Match'', alert_severity = Critical,
      alert_status = Open, alert_source = ''EDR'', created_at = 0, updated_at = 0,
      attributes = []\<rparr>"

definition scenario_engine :: engine where
  "scenario_engine = \<lparr>eng_playbooks = [scenario_playbook], eng_runs = [], eng_next_id = 0\<rparr>"

definition scenario_run :: "run_state \<Rightarrow> step_result list \<Rightarrow> execution_run" where
  \<comment> \<open>the run of the scenario, in a given state and with given results\<close>
  "scenario_run st rs =
     \<lparr>run_id = 0, run_playbook = 1, run_alert = 7, run_state = st, results = rs,
      cancel_requested = False\<rparr>"

definition scenario_with :: "execution_run \<Rightarrow> engine" where
  "scenario_with r = \<lparr>eng_playbooks = [scenario_playbook], eng_runs = [r], eng_next_id = 1\<rparr>"

definition first_result :: step_result where
  \<comment> \<open>the quarantine-host step (order index 1) succeeded at its first attempt\<close>
  "first_result = \<lparr>step_index = 1, result_outcome = Success, attempts = 1\<rparr>"

subsection \<open>Statistics\<close>

record stat_snapshot =
  total_alerts :: nat
  by_severity :: "severity \<Rightarrow> nat"
  by_status :: "status \<Rightarrow> nat"
  active_incidents :: nat

definition recount :: "alert list \<Rightarrow> stat_snapshot" where
  \<comment> \<open>Modelled from the spec: the StatSnapshot reconstructed from the Alert set, its
      active-incident count being the alerts whose status is not resolved\<close>
  "recount as =
     \<lparr>total_alerts = length as,
      by_severity = (\<lambda>s. length (filter (\<lambda>a. alert_severity a = s) as)),
      by_status = (\<lambda>s. length (filter (\<lambda>a. alert_status a = s) as)),
      active_incidents = length (filter (\<lambda>a. alert_status a \<noteq> Resolved) as)\<rparr>"

definition snapshot_json :: "stat_snapshot \<Rightarrow> jsval" where
  \<comment> \<open>Modelled from the spec: the body of \<^verbatim>\<open>GET /alerts/statistics\<close>, with the keys the
      dashboard reads\<close>
  "snapshot_json sn = JObj
     [(''total_alerts'', JNum (int (total_alerts sn))),
      (''by_severity'', JObj [(''critical'', JNum (int (by_severity sn Critical))),
                              (''high'', JNum (int (by_severity sn High))),
                              (''medium'', JNum (int (by_severity sn Medium))),
                              (''low'', JNum (int (by_severity sn Low)))]),
      (''by_status'', JObj [(''open'', JNum (int (by_status sn Open))),
                            (''investigating'', JNum (int (by_status sn Investigating))),
                            (''resolved'', JNum (int (by_status sn Resolved)))]),
      (''active_incidents'', JNum (int (active_incidents sn)))]"

section \<open>Properties of the dashboard\<close>

subsection \<open>Severity classes\<close>

lemma upper_unit_ascii_lower:
  assumes "0x61 \<le> c" "c \<le> 0x7A"
  shows "concat (map lower_unit (upper_unit c)) = [c]"
proof -
  have u: "upper_unit c = [c - 0x20]" using assms by (simp add: upper_unit_def)
  have a: "0x41 \<le> c - 0x20" using assms by unat_arith
  have b: "c - 0x20 \<le> 0x5A" using assms by unat_arith
  show ?thesis using a b by (simp add: u lower_unit_def)
qed

lemma lower_unit_ascii_lower:
  assumes "0x61 \<le> c" "c \<le> 0x7A"
  shows "lower_unit c = [c]"
proof -
  have a: "\<not> c \<le> 0x5A" using assms by unat_arith
  have b: "\<not> 0xC0 \<le> c" using assms by unat_arith
  have c1: "c \<noteq> 0x130" using assms by unat_arith
  have c2: "c \<noteq> 0x178" using assms by unat_arith
  have c3: "c \<noteq> 0x212A" using assms by unat_arith
  show ?thesis using a b c1 c2 c3 by (simp add: lower_unit_def)
qed

lemma upper_unit_ascii_other:
  assumes "c < 0x80" "\<not> (0x61 \<le> c \<and> c \<le> 0x7A)"
  shows "upper_unit c = [c]"
proof -
  have a: "c \<noteq> 0xB5" using assms(1) by unat_arith
  have b: "c \<noteq> 0xDF" using assms(1) by unat_arith
  have c1: "\<not> 0xE0 \<le> c" using assms(1) by unat_arith
  have c2: "c \<noteq> 0xFF" using assms(1) by unat_arith
  have c3: "c \<noteq> 0x131" using assms(1) by unat_arith
  have c4: "c \<noteq> 0x17F" using assms(1) by unat_arith
  show ?thesis using assms(2) a b c1 c2 c3 c4 by (simp add: upper_unit_def)
qed

lemma lower_of_upper_unit:
  "c < 0x80 \<Longrightarrow> concat (map lower_unit (upper_unit c)) = lower_unit c"
  by (cases "0x61 \<le> c \<and> c \<le> 0x7A")
     (simp_all add: upper_unit_ascii_lower lower_unit_ascii_lower upper_unit_ascii_other)

lemma lower_of_upper:
  "ascii s \<Longrightarrow> toLowerCase (toUpperCase s) = toLowerCase s"
  by (induction s) (simp_all add: ascii_def toLowerCase_def toUpperCase_def lower_of_upper_unit)

lemma getSeverityColor_not_string:
  "(\<forall>t. v \<noteq> JStr t) \<Longrightarrow> getSeverityColor v = Inl TypeError"
  by (cases v) (simp_all add: getSeverityColor_def)

lemmas js_eval = js_def toLowerCase_def toUpperCase_def lower_unit_def upper_unit_def

text \<open>
  C9 (as amended). For every string \<open>s\<close>, \<^verbatim>\<open>getSeverityColor(s)\<close> is decided by
  \<^verbatim>\<open>s.toLowerCase()\<close>: \<^verbatim>\<open>critical\<close>, \<^verbatim>\<open>high\<close> and \<^verbatim>\<open>medium\<close> give three class strings, every
  other value (\<^verbatim>\<open>low\<close> and any unknown severity) gives the blue default, and the four are
  pairwise distinct. For a string of Basic Latin characters the result is the same for
  \<^verbatim>\<open>s.toUpperCase()\<close>. A severity that is no string (\<^verbatim>\<open>null\<close>, \<^verbatim>\<open>undefined\<close>, a number, ...)
  raises a TypeError.
\<close>

theorem getSeverityColor_classes:
  "getSeverityColor (JStr s) =
     Inr (if toLowerCase s = js ''critical'' then ''text-danger bg-danger/10 border-danger/20''
          else if toLowerCase s = js ''high''
            then ''text-orange-400 bg-orange-400/10 border-orange-400/20''
          else if toLowerCase s = js ''medium'' then ''text-warning bg-warning/10 border-warning/20''
          else ''text-blue-400 bg-blue-400/10 border-blue-400/20'')
   \<and> getSeverityColor (JStr (js ''critical'')) \<noteq> getSeverityColor (JStr (js ''high''))
   \<and> getSeverityColor (JStr (js ''critical'')) \<noteq> getSeverityColor (JStr (js ''medium''))
   \<and> getSeverityColor (JStr (js ''critical'')) \<noteq> getSeverityColor (JStr (js ''low''))
   \<and> getSeverityColor (JStr (js ''high'')) \<noteq> getSeverityColor (JStr (js ''medium''))
   \<and> getSeverityColor (JStr (js ''high'')) \<noteq> getSeverityColor (JStr (js ''low''))
   \<and> getSeverityColor (JStr (js ''medium'')) \<noteq> getSeverityColor (JStr (js ''low''))
   \<and> (ascii s \<longrightarrow> getSeverityColor (JStr (toUpperCase s)) = getSeverityColor (JStr s))
   \<and> ((\<forall>t. v \<noteq> JStr t) \<longrightarrow> getSeverityColor v = Inl TypeError)"
proof -
  have a: "getSeverityColor (JStr s) =
     Inr (if toLowerCase s = js ''critical'' then ''text-danger bg-danger/10 border-danger/20''
          else if toLowerCase s = js ''high''
            then ''text-orange-400 bg-orange-400/10 border-orange-400/20''
          else if toLowerCase s = js ''medium'' then ''text-warning bg-warning/10 border-warning/20''
          else ''text-blue-400 bg-blue-400/10 border-blue-400/20'')"
    by (simp add: getSeverityColor_def Let_def)
  have b: "getSeverityColor (JStr (js ''critical'')) = Inr ''text-danger bg-danger/10 border-danger/20''"
    "getSeverityColor (JStr (js ''high'')) = Inr ''text-orange-400 bg-orange-400/10 border-orange-400/20''"
    "getSeverityColor (JStr (js ''medium'')) = Inr ''text-warning bg-warning/10 border-warning/20''"
    "getSeverityColor (JStr (js ''low'')) = Inr ''text-blue-400 bg-blue-400/10 border-blue-400/20''"
    by (simp_all add: getSeverityColor_def js_eval)
  have c: "ascii s \<longrightarrow> getSeverityColor (JStr (toUpperCase s)) = getSeverityColor (JStr s)"
    by (simp add: getSeverityColor_def lower_of_upper)
  have d: "(\<forall>t. v \<noteq> JStr t) \<longrightarrow> getSeverityColor v = Inl TypeError"
    using getSeverityColor_not_string by blast
  have e: "getSeverityColor (JStr (js ''critical'')) \<noteq> getSeverityColor (JStr (js ''high''))
      \<and> getSeverityColor (JStr (js ''critical'')) \<noteq> getSeverityColor (JStr (js ''medium''))
      \<and> getSeverityColor (JStr (js ''critical'')) \<noteq> getSeverityColor (JStr (js ''low''))
      \<and> getSeverityColor (JStr (js ''high'')) \<noteq> getSeverityColor (JStr (js ''medium''))
      \<and> getSeverityColor (JStr (js ''high'')) \<noteq> getSeverityColor (JStr (js ''low''))
      \<and> getSeverityColor (JStr (js ''medium'')) \<noteq> getSeverityColor (JStr (js ''low''))"
    by (simp add: b)
  from a e c d show ?thesis by blast
qed

text \<open>The theorem at \<^verbatim>\<open>'Critical'\<close> and at \<^verbatim>\<open>null\<close>.\<close>

theorem getSeverityColor_classes_witness:
  "ascii (js ''Critical'')
   \<and> getSeverityColor (JStr (toUpperCase (js ''Critical''))) = getSeverityColor (JStr (js ''Critical''))
   \<and> getSeverityColor (JStr (js ''Critical'')) = Inr ''text-danger bg-danger/10 border-danger/20''
   \<and> getSeverityColor JNull = Inl TypeError"
  using getSeverityColor_classes [of "js ''Critical''" JNull]
  by (simp add: ascii_def js_eval)

text \<open>
  C9 as stated fails beyond Basic Latin: the string of \<^verbatim>\<open>h\<close>, the dotless small i
  (U+0131), \<^verbatim>\<open>g\<close> and \<^verbatim>\<open>h\<close> is its own lower case and gets the blue default, while its upper case is
  \<^verbatim>\<open>'HIGH'\<close> and gets the class of \<^verbatim>\<open>high\<close>.
\<close>

theorem getSeverityColor_upper_counterexample:
  "getSeverityColor (JStr [0x68, 0x131, 0x67, 0x68])
     \<noteq> getSeverityColor (JStr (toUpperCase [0x68, 0x131, 0x67, 0x68]))"
  by (simp add: getSeverityColor_def js_eval)

subsection \<open>The requests of the API client\<close>

lemmas api_defs = api_def api_get_def api_post_def api_put_def getStats_def getAlerts_def
  getAlert_def createAlert_def updateAlert_def getPlaybooks_def getPlaybook_def runPlaybook_def

text \<open>
  C6. Under the base URL \<^verbatim>\<open>/api/v1\<close>, for every id and every argument: \<^verbatim>\<open>getAlerts\<close> is
  \<^verbatim>\<open>GET /alerts\<close> and carries the filter parameters it is given, \<^verbatim>\<open>createAlert\<close> is
  \<^verbatim>\<open>POST /alerts\<close>, \<^verbatim>\<open>updateAlert(id)\<close> is \<^verbatim>\<open>PUT /alerts/{id}\<close>, \<^verbatim>\<open>getStats\<close> is
  \<^verbatim>\<open>GET /alerts/statistics\<close>, \<^verbatim>\<open>getPlaybooks\<close> is \<^verbatim>\<open>GET /playbooks\<close> and \<^verbatim>\<open>runPlaybook(id)\<close> is
  \<^verbatim>\<open>POST /playbooks/{id}/execute\<close>, where \<^verbatim>\<open>{id}\<close> is the id as a string.
\<close>

theorem api_client_requests:
  "getAlerts params =
     \<lparr>req_method = GET, req_baseURL = js ''/api/v1'', req_content_type = js ''application/json'',
      req_url = js ''/alerts'', req_params = params, req_data = JUndefined\<rparr>
   \<and> createAlert body =
     \<lparr>req_method = POST, req_baseURL = js ''/api/v1'', req_content_type = js ''application/json'',
      req_url = js ''/alerts'', req_params = JUndefined, req_data = body\<rparr>
   \<and> updateAlert ident body =
     \<lparr>req_method = PUT, req_baseURL = js ''/api/v1'', req_content_type = js ''application/json'',
      req_url = js ''/alerts/'' @ to_string ident, req_params = JUndefined, req_data = body\<rparr>
   \<and> getStats =
     \<lparr>req_method = GET, req_baseURL = js ''/api/v1'', req_content_type = js ''application/json'',
      req_url = js ''/alerts/statistics'', req_params = JUndefined, req_data = JUndefined\<rparr>
   \<and> getPlaybooks =
     \<lparr>req_method = GET, req_baseURL = js ''/api/v1'', req_content_type = js ''application/json'',
      req_url = js ''/playbooks'', req_params = JUndefined, req_data = JUndefined\<rparr>
   \<and> runPlaybook ident =
     \<lparr>req_method = POST, req_baseURL = js ''/api/v1'', req_content_type = js ''application/json'',
      req_url = js ''/playbooks/'' @ to_string ident @ js ''/execute'',
      req_params = JUndefined, req_data = JUndefined\<rparr>
   \<and> to_string (JStr s) = s
   \<and> req_url (updateAlert (JNum 3) body) = js ''/alerts/3''
   \<and> req_url (runPlaybook (JNum 12)) = js ''/playbooks/12/execute''"
  by (simp add: api_defs js_def decimal.simps)

lemma post_calls:
  "req_method (invoke c) = POST \<longleftrightarrow> (\<exists>b. c = CreateAlert b) \<or> (\<exists>i. c = RunPlaybook i)"
  by (cases c) (simp_all add: api_defs)

lemma post_not_under_alerts:
  "\<not> (req_method (invoke c) = POST \<and> prefix (js ''/alerts/'') (req_url (invoke c)))"
  by (cases c) (simp_all add: api_defs js_def)

lemma put_calls:
  "req_method (invoke c) = PUT \<longleftrightarrow> (\<exists>i b. c = UpdateAlert i b)"
  by (cases c) (simp_all add: api_defs)

lemma post_not_escalate:
  "\<not> (req_method (invoke c) = POST
       \<and> req_url (invoke c) = js ''/alerts/'' @ to_string ident @ js ''/escalate'')"
proof -
  have "prefix (js ''/alerts/'') (js ''/alerts/'' @ to_string ident @ js ''/escalate'')"
    by simp
  with post_not_under_alerts [of c] show ?thesis by metis
qed

lemma post_not_bulk_update:
  "\<not> (req_method (invoke c) = POST \<and> req_url (invoke c) = js ''/alerts/bulk-update'')"
proof -
  have "prefix (js ''/alerts/'') (js ''/alerts/bulk-update'')" by (simp add: js_def)
  with post_not_under_alerts [of c] show ?thesis by metis
qed

text \<open>
  C7 (as amended). The calls of the client are eight: \<^verbatim>\<open>GET /alerts/statistics\<close>,
  \<^verbatim>\<open>GET /alerts\<close>, \<^verbatim>\<open>GET /alerts/{id}\<close>, \<^verbatim>\<open>POST /alerts\<close>, \<^verbatim>\<open>PUT /alerts/{id}\<close>,
  \<^verbatim>\<open>GET /playbooks\<close>, \<^verbatim>\<open>GET /playbooks/{id}\<close> and \<^verbatim>\<open>POST /playbooks/{id}/execute\<close>, all under
  the base URL \<^verbatim>\<open>/api/v1\<close>. It sends a POST from two calls only, \<^verbatim>\<open>createAlert\<close> and
  \<^verbatim>\<open>runPlaybook\<close>, and a PUT from \<^verbatim>\<open>updateAlert\<close> only; no call of it sends a POST to a path
  under \<^verbatim>\<open>/alerts/\<close>, so none is \<^verbatim>\<open>POST /alerts/{id}/escalate\<close> or
  \<^verbatim>\<open>POST /alerts/bulk-update\<close>.
\<close>

theorem client_calls:
  "(req_method (invoke GetStats), req_url (invoke GetStats)) = (GET, js ''/alerts/statistics'')
   \<and> (req_method (invoke (GetAlerts params)), req_url (invoke (GetAlerts params))) =
       (GET, js ''/alerts'')
   \<and> (req_method (invoke (GetAlert ident)), req_url (invoke (GetAlert ident))) =
       (GET, js ''/alerts/'' @ to_string ident)
   \<and> (req_method (invoke (CreateAlert body)), req_url (invoke (CreateAlert body))) =
       (POST, js ''/alerts'')
   \<and> (req_method (invoke (UpdateAlert ident body)), req_url (invoke (UpdateAlert ident body))) =
       (PUT, js ''/alerts/'' @ to_string ident)
   \<and> (req_method (invoke GetPlaybooks), req_url (invoke GetPlaybooks)) = (GET, js ''/playbooks'')
   \<and> (req_method (invoke (GetPlaybook ident)), req_url (invoke (GetPlaybook ident))) =
       (GET, js ''/playbooks/'' @ to_string ident)
   \<and> (req_method (invoke (RunPlaybook ident)), req_url (invoke (RunPlaybook ident))) =
       (POST, js ''/playbooks/'' @ to_string ident @ js ''/execute'')
   \<and> req_baseURL (invoke c) = js ''/api/v1''
   \<and> (req_method (invoke c) = POST \<longleftrightarrow> (\<exists>b. c = CreateAlert b) \<or> (\<exists>i. c = RunPlaybook i))
   \<and> (req_method (invoke c) = PUT \<longleftrightarrow> (\<exists>i b. c = UpdateAlert i b))
   \<and> \<not> (req_method (invoke c) = POST \<and> prefix (js ''/alerts/'') (req_url (invoke c)))
   \<and> \<not> (req_method (invoke c) = POST
          \<and> req_url (invoke c) = js ''/alerts/'' @ to_string ident @ js ''/escalate'')
   \<and> \<not> (req_method (invoke c) = POST \<and> req_url (invoke c) = js ''/alerts/bulk-update'')"
proof -
  have base: "req_baseURL (invoke c) = js ''/api/v1''"
    by (cases c) (simp_all add: api_defs)
  have calls: "(req_method (invoke GetStats), req_url (invoke GetStats)) =
        (GET, js ''/alerts/statistics'')
   \<and> (req_method (invoke (GetAlerts params)), req_url (invoke (GetAlerts params))) =
       (GET, js ''/alerts'')
   \<and> (req_method (invoke (GetAlert ident)), req_url (invoke (GetAlert ident))) =
       (GET, js ''/alerts/'' @ to_string ident)
   \<and> (req_method (invoke (CreateAlert body)), req_url (invoke (CreateAlert body))) =
       (POST, js ''/alerts'')
   \<and> (req_method (invoke (UpdateAlert ident body)), req_url (invoke (UpdateAlert ident body))) =
       (PUT, js ''/alerts/'' @ to_string ident)
   \<and> (req_method (invoke GetPlaybooks), req_url (invoke GetPlaybooks)) = (GET, js ''/playbooks'')
   \<and> (req_method (invoke (GetPlaybook ident)), req_url (invoke (GetPlaybook ident))) =
       (GET, js ''/playbooks/'' @ to_string ident)
   \<and> (req_method (invoke (RunPlaybook ident)), req_url (invoke (RunPlaybook ident))) =
       (POST, js ''/playbooks/'' @ to_string ident @ js ''/execute'')"
    by (simp add: api_defs)
  from calls base post_calls [of c] put_calls [of c] post_not_under_alerts [of c]
    post_not_escalate [of c ident] post_not_bulk_update [of c]
  show ?thesis by blast
qed

text \<open>C7 as stated fails: no call of the client is \<^verbatim>\<open>POST /alerts/bulk-update\<close>.\<close>

theorem client_no_bulk_update_counterexample:
  "\<not> (\<exists>c. req_method (invoke c) = POST \<and> req_url (invoke c) = js ''/alerts/bulk-update'')"
proof
  assume "\<exists>c. req_method (invoke c) = POST \<and> req_url (invoke c) = js ''/alerts/bulk-update''"
  then obtain c where m: "req_method (invoke c) = POST"
    and u: "req_url (invoke c) = js ''/alerts/bulk-update''" by blast
  have "prefix (js ''/alerts/'') (js ''/alerts/bulk-update'')" by (simp add: js_def)
  with m u post_not_under_alerts [of c] show False by simp
qed

subsection \<open>Failed requests\<close>

lemma render_mockAlerts:
  "map_sum id (map (\<lambda>r. (row_key r, row_title r, row_class r)))
     (render_alerts (st\<lparr>alerts := mockAlerts, alerts_loading := False\<rparr>)) =
   Inr [(JNum 1, JStr (js ''Suspicious Login Attempt''),
         ''text-orange-400 bg-orange-400/10 border-orange-400/20''),
        (JNum 2, JStr (js ''Port Scan Detected''), ''text-warning bg-warning/10 border-warning/20''),
        (JNum 3, JStr (js ''Malware Signature Match''), ''text-danger bg-danger/10 border-danger/20'')]"
  by (simp add: render_alerts_def mockAlerts_def render_alert_def row_children_def nullish_def
      getSeverityColor_def js_eval)

lemma render_fallbackStats:
  "render_dashboard (st\<lparr>stats := fallbackStats, stats_loading := False\<rparr>) =
   Inr (Metrics \<lparr>total_alerts_card = JNum 124, critical_threats_card = JNum 12,
                 active_incidents_card = JNum 3, resolved_today_card = JNum 67\<rparr>)"
  by (simp add: render_dashboard_def cards_children_def stat_values_def fallbackStats_def
      opt_prop_def js_or_def nullish_def)

text \<open>
  C8. When the request fails, the handler of the Alerts page leaves the three fixed mock
  alerts in the state and the table shows them; the handler of the Dashboard leaves the
  fixed snapshot and the cards show 124 total alerts and 3 active incidents. Both clear
  the loading flag, and both return a state (\<open>Inr\<close>): no exception leaves the handler.
\<close>

theorem failed_request_fallback:
  "fetchAlerts (Inl err) ast = Inr (ast\<lparr>alerts := mockAlerts, alerts_loading := False\<rparr>)
   \<and> map_sum id (map (\<lambda>r. (row_key r, row_title r, row_class r)))
        (render_alerts (ast\<lparr>alerts := mockAlerts, alerts_loading := False\<rparr>)) =
      Inr [(JNum 1, JStr (js ''Suspicious Login Attempt''),
            ''text-orange-400 bg-orange-400/10 border-orange-400/20''),
           (JNum 2, JStr (js ''Port Scan Detected''),
            ''text-warning bg-warning/10 border-warning/20''),
           (JNum 3, JStr (js ''Malware Signature Match''),
            ''text-danger bg-danger/10 border-danger/20'')]
   \<and> fetchStats (Inl err) dst = Inr (dst\<lparr>stats := fallbackStats, stats_loading := False\<rparr>)
   \<and> render_dashboard (dst\<lparr>stats := fallbackStats, stats_loading := False\<rparr>) =
      Inr (Metrics \<lparr>total_alerts_card = JNum 124, critical_threats_card = JNum 12,
                    active_incidents_card = JNum 3, resolved_today_card = JNum 67\<rparr>)"
  using render_mockAlerts [of ast] render_fallbackStats [of dst]
  by (simp add: fetchAlerts_def fetchAlerts_try_def fetchStats_def fetchStats_try_def)

subsection \<open>Missing fields\<close>

lemma render_empty:
  "render_alerts (ast\<lparr>alerts := JArr [], alerts_loading := False\<rparr>) = Inr []"
  "render_playbooks (pst\<lparr>playbooks := JArr [], playbooks_loading := False\<rparr>) = Inr []"
  by (simp_all add: render_alerts_def render_playbooks_def)

lemma missing_counter_zero:
  "opt_prop d ''total_alerts'' = JUndefined \<Longrightarrow>
     total_alerts_card (stat_values (dst\<lparr>stats := d, stats_loading := False\<rparr>)) = JNum 0"
  "opt_prop (opt_prop d ''by_severity'') ''critical'' = JUndefined \<Longrightarrow>
     critical_threats_card (stat_values (dst\<lparr>stats := d, stats_loading := False\<rparr>)) = JNum 0"
  "opt_prop d ''active_incidents'' = JUndefined \<Longrightarrow>
     active_incidents_card (stat_values (dst\<lparr>stats := d, stats_loading := False\<rparr>)) = JNum 0"
  "opt_prop (opt_prop d ''by_status'') ''resolved'' = JUndefined \<Longrightarrow>
     resolved_today_card (stat_values (dst\<lparr>stats := d, stats_loading := False\<rparr>)) = JNum 0"
  by (simp_all add: stat_values_def js_or_def)

lemma render_dashboard_object_counter:
  "render_dashboard \<lparr>stats = JObj [(''total_alerts'', JObj [(''count'', JNum 5)])],
                     stats_loading = False\<rparr> = Inl ReactError"
  by (simp add: render_dashboard_def cards_children_def stat_values_def opt_prop_def js_or_def
      nullish_def)

text \<open>
  C10 (as amended). A successful response whose body is not \<^verbatim>\<open>null\<close> and lacks the
  \<^verbatim>\<open>alerts\<close> field gives the empty table, and one whose body is not \<^verbatim>\<open>null\<close> and lacks the
  \<^verbatim>\<open>playbooks\<close> field gives the empty grid. On a \<^verbatim>\<open>null\<close> body the property access throws
  inside \<^verbatim>\<open>try\<close>: the Alerts page then holds the mock alerts and the Playbooks page keeps
  the list it had. Each statistics counter that is missing from the body (at any level of
  the chain the card reads, a \<^verbatim>\<open>null\<close> body included) has the card value 0, and the
  dashboard renders its four cards whenever no card value is an object.
\<close>

theorem missing_field_defaults:
  "(\<not> nullish d \<and> own_prop d ''alerts'' = JUndefined \<longrightarrow>
      fetchAlerts (Inr d) ast = Inr (ast\<lparr>alerts := JArr [], alerts_loading := False\<rparr>)
      \<and> render_alerts (ast\<lparr>alerts := JArr [], alerts_loading := False\<rparr>) = Inr [])
   \<and> (nullish d \<longrightarrow>
      fetchAlerts (Inr d) ast = Inr (ast\<lparr>alerts := mockAlerts, alerts_loading := False\<rparr>))
   \<and> (\<not> nullish d \<and> own_prop d ''playbooks'' = JUndefined \<longrightarrow>
      fetchPlaybooks (Inr d) pst = Inr (pst\<lparr>playbooks := JArr [], playbooks_loading := False\<rparr>)
      \<and> render_playbooks (pst\<lparr>playbooks := JArr [], playbooks_loading := False\<rparr>) = Inr [])
   \<and> (nullish d \<longrightarrow> fetchPlaybooks (Inr d) pst = Inr (pst\<lparr>playbooks_loading := False\<rparr>))
   \<and> fetchStats (Inr d) dst = Inr (dst\<lparr>stats := d, stats_loading := False\<rparr>)
   \<and> (opt_prop d ''total_alerts'' = JUndefined \<longrightarrow>
        total_alerts_card (stat_values (dst\<lparr>stats := d, stats_loading := False\<rparr>)) = JNum 0)
   \<and> (opt_prop (opt_prop d ''by_severity'') ''critical'' = JUndefined \<longrightarrow>
        critical_threats_card (stat_values (dst\<lparr>stats := d, stats_loading := False\<rparr>)) = JNum 0)
   \<and> (opt_prop d ''active_incidents'' = JUndefined \<longrightarrow>
        active_incidents_card (stat_values (dst\<lparr>stats := d, stats_loading := False\<rparr>)) = JNum 0)
   \<and> (opt_prop (opt_prop d ''by_status'') ''resolved'' = JUndefined \<longrightarrow>
        resolved_today_card (stat_values (dst\<lparr>stats := d, stats_loading := False\<rparr>)) = JNum 0)
   \<and> (cards_children (stat_values (dst\<lparr>stats := d, stats_loading := False\<rparr>)) \<longrightarrow>
        render_dashboard (dst\<lparr>stats := d, stats_loading := False\<rparr>) =
          Inr (Metrics (stat_values (dst\<lparr>stats := d, stats_loading := False\<rparr>))))"
proof -
  have a: "\<not> nullish d \<and> own_prop d ''alerts'' = JUndefined \<longrightarrow>
      fetchAlerts (Inr d) ast = Inr (ast\<lparr>alerts := JArr [], alerts_loading := False\<rparr>)
      \<and> render_alerts (ast\<lparr>alerts := JArr [], alerts_loading := False\<rparr>) = Inr []"
    by (simp add: fetchAlerts_def fetchAlerts_try_def get_prop_def js_or_def render_empty)
  have b: "nullish d \<longrightarrow>
      fetchAlerts (Inr d) ast = Inr (ast\<lparr>alerts := mockAlerts, alerts_loading := False\<rparr>)"
    by (simp add: fetchAlerts_def fetchAlerts_try_def get_prop_def)
  have c: "\<not> nullish d \<and> own_prop d ''playbooks'' = JUndefined \<longrightarrow>
      fetchPlaybooks (Inr d) pst = Inr (pst\<lparr>playbooks := JArr [], playbooks_loading := False\<rparr>)
      \<and> render_playbooks (pst\<lparr>playbooks := JArr [], playbooks_loading := False\<rparr>) = Inr []"
    by (simp add: fetchPlaybooks_def fetchPlaybooks_try_def get_prop_def js_or_def render_empty)
  have d: "nullish d \<longrightarrow> fetchPlaybooks (Inr d) pst = Inr (pst\<lparr>playbooks_loading := False\<rparr>)"
    by (simp add: fetchPlaybooks_def fetchPlaybooks_try_def get_prop_def)
  have e: "fetchStats (Inr d) dst = Inr (dst\<lparr>stats := d, stats_loading := False\<rparr>)"
    by (simp add: fetchStats_def fetchStats_try_def)
  have f: "cards_children (stat_values (dst\<lparr>stats := d, stats_loading := False\<rparr>)) \<longrightarrow>
        render_dashboard (dst\<lparr>stats := d, stats_loading := False\<rparr>) =
          Inr (Metrics (stat_values (dst\<lparr>stats := d, stats_loading := False\<rparr>)))"
    by (simp add: render_dashboard_def)
  from a b c d e f missing_counter_zero [of d dst] show ?thesis by blast
qed

text \<open>
  The theorem at a body that has neither \<^verbatim>\<open>alerts\<close> nor \<^verbatim>\<open>playbooks\<close> nor any counter the
  cards read, and at the \<^verbatim>\<open>null\<close> body.
\<close>

theorem missing_field_defaults_witness:
  "\<not> nullish (JObj [(''by_severity'', JObj [(''high'', JNum 2)])])
   \<and> own_prop (JObj [(''by_severity'', JObj [(''high'', JNum 2)])]) ''alerts'' = JUndefined
   \<and> own_prop (JObj [(''by_severity'', JObj [(''high'', JNum 2)])]) ''playbooks'' = JUndefined
   \<and> fetchAlerts (Inr (JObj [(''by_severity'', JObj [(''high'', JNum 2)])])) alerts_init =
       Inr \<lparr>alerts = JArr [], alerts_loading = False\<rparr>
   \<and> render_alerts \<lparr>alerts = JArr [], alerts_loading = False\<rparr> = Inr []
   \<and> fetchPlaybooks (Inr (JObj [(''by_severity'', JObj [(''high'', JNum 2)])])) playbooks_init =
       Inr \<lparr>playbooks = JArr [], playbooks_loading = False, selectedPlaybook = JNull\<rparr>
   \<and> render_playbooks \<lparr>playbooks = JArr [], playbooks_loading = False, selectedPlaybook = JNull\<rparr>
       = Inr []
   \<and> render_dashboard \<lparr>stats = JObj [(''by_severity'', JObj [(''high'', JNum 2)])],
                         stats_loading = False\<rparr> =
       Inr (Metrics \<lparr>total_alerts_card = JNum 0, critical_threats_card = JNum 0,
                     active_incidents_card = JNum 0, resolved_today_card = JNum 0\<rparr>)
   \<and> nullish JNull
   \<and> fetchAlerts (Inr JNull) alerts_init = Inr \<lparr>alerts = mockAlerts, alerts_loading = False\<rparr>
   \<and> fetchPlaybooks (Inr JNull) playbooks_init =
       Inr \<lparr>playbooks = JArr [], playbooks_loading = False, selectedPlaybook = JNull\<rparr>
   \<and> render_dashboard \<lparr>stats = JNull, stats_loading = False\<rparr> =
       Inr (Metrics \<lparr>total_alerts_card = JNum 0, critical_threats_card = JNum 0,
                     active_incidents_card = JNum 0, resolved_today_card = JNum 0\<rparr>)"
  using missing_field_defaults [of "JObj [(''by_severity'', JObj [(''high'', JNum 2)])]"
      alerts_init playbooks_init dashboard_init]
    missing_field_defaults [of JNull alerts_init playbooks_init dashboard_init]
  by (simp add: nullish_def opt_prop_def alerts_init_def playbooks_init_def dashboard_init_def
      stat_values_def cards_children_def js_or_def)

text \<open>
  C10 as stated fails at the body \<^verbatim>\<open>null\<close>, a body without an \<^verbatim>\<open>alerts\<close> array: the table
  then shows the three mock alerts, not no row.
\<close>

theorem null_body_counterexample:
  "fetchAlerts (Inr JNull) alerts_init = Inr \<lparr>alerts = mockAlerts, alerts_loading = False\<rparr>
   \<and> map_sum id length (render_alerts \<lparr>alerts = mockAlerts, alerts_loading = False\<rparr>) = Inr 3
   \<and> render_alerts \<lparr>alerts = mockAlerts, alerts_loading = False\<rparr> \<noteq> Inr []"
  by (simp add: fetchAlerts_def fetchAlerts_try_def get_prop_def nullish_def alerts_init_def
      render_alerts_def mockAlerts_def render_alert_def row_children_def
      getSeverityColor_def js_eval)

subsection \<open>Statistics\<close>

lemma filter_not_length:
  "length (filter (\<lambda>x. \<not> P x) xs) = length xs - length (filter P xs)"
  using sum_length_filter_compl [of P xs] by simp

lemma recount_active:
  "active_incidents (recount as) = total_alerts (recount as) - by_status (recount as) Resolved"
  using filter_not_length [of "\<lambda>a. alert_status a = Resolved" as] by (simp add: recount_def)

text \<open>
  C5 (as amended). In the snapshot recounted from the Alert set, the active-incident
  count is the number of alerts whose status is not resolved, that is \<open>total_alerts\<close> minus
  the resolved count of \<open>by_status\<close>, and the dashboard shows that count when the request
  succeeds with this snapshot.
\<close>

theorem snapshot_active_incidents:
  "active_incidents (recount as) = length (filter (\<lambda>a. alert_status a \<noteq> Resolved) as)
   \<and> active_incidents (recount as) = total_alerts (recount as) - by_status (recount as) Resolved
   \<and> by_status (recount as) Resolved \<le> total_alerts (recount as)
   \<and> fetchStats (Inr (snapshot_json (recount as))) dst =
       Inr (dst\<lparr>stats := snapshot_json (recount as), stats_loading := False\<rparr>)
   \<and> active_incidents_card
        (stat_values (dst\<lparr>stats := snapshot_json (recount as), stats_loading := False\<rparr>)) =
       JNum (int (total_alerts (recount as) - by_status (recount as) Resolved))"
proof -
  have a: "active_incidents (recount as) = length (filter (\<lambda>a. alert_status a \<noteq> Resolved) as)"
    by (simp add: recount_def)
  have b: "by_status (recount as) Resolved \<le> total_alerts (recount as)"
    by (simp add: recount_def)
  have c: "fetchStats (Inr (snapshot_json (recount as))) dst =
       Inr (dst\<lparr>stats := snapshot_json (recount as), stats_loading := False\<rparr>)"
    by (simp add: fetchStats_def fetchStats_try_def)
  have d: "active_incidents_card
        (stat_values (dst\<lparr>stats := snapshot_json (recount as), stats_loading := False\<rparr>)) =
       JNum (int (active_incidents (recount as)))"
    by (simp add: stat_values_def snapshot_json_def opt_prop_def nullish_def js_or_def)
  show ?thesis using a b c d recount_active [of as] by simp
qed

text \<open>
  C5 as stated fails on the snapshot the dashboard renders when the request fails: it
  shows 3 active incidents with 124 total alerts of which 67 are resolved.
\<close>

theorem fallback_snapshot_counterexample:
  "map_sum id stat_values (fetchStats (Inl RequestFailed) dashboard_init) =
     Inr \<lparr>total_alerts_card = JNum 124, critical_threats_card = JNum 12,
          active_incidents_card = JNum 3, resolved_today_card = JNum 67\<rparr>
   \<and> JNum 3 \<noteq> JNum (124 - 67)"
  by (simp add: fetchStats_def fetchStats_try_def stat_values_def fallbackStats_def opt_prop_def
      js_or_def nullish_def dashboard_init_def)

section \<open>Properties of the engine\<close>

subsection \<open>Admission\<close>

lemma filter_map_le:
  assumes "\<And>x. P (f x) \<Longrightarrow> P x"
  shows "length (filter P (map f xs)) \<le> length (filter P xs)"
  using assms by (induction xs) (auto simp: le_SucI)

lemma active_advance: "active (advance sts outs r) \<Longrightarrow> active r"
  by (cases "active r") (simp_all add: advance_def)

lemma pair_advance:
  "run_playbook (advance sts outs r) = run_playbook r \<and> run_alert (advance sts outs r) = run_alert r
   \<and> run_id (advance sts outs r) = run_id r"
  by (simp add: advance_def Let_def split: list.splits prod.splits)

lemma active_for_advance: "active_for pid aid (advance sts outs r) \<Longrightarrow> active_for pid aid r"
  using active_advance [of sts outs r] pair_advance [of sts outs r]
  by (simp add: active_for_def same_pair_def)

lemma active_for_cancel: "active_for pid aid (cancel r) \<Longrightarrow> active_for pid aid r"
  by (auto simp: active_for_def same_pair_def cancel_def active_def split: if_splits)

lemma filter_empty_iff_list_ex: "\<not> list_ex P xs \<Longrightarrow> filter P xs = []"
  by (induction xs) auto

lemma one_active_admit: "one_active e \<Longrightarrow> one_active (admit p a e)"
proof (cases "list_ex (active_for p a) (eng_runs e)")
  case True
  assume "one_active e"
  with True show ?thesis by (simp add: admit_def)
next
  case False
  assume inv: "one_active e"
  show ?thesis
    unfolding one_active_def
  proof (intro allI)
    fix pid aid
    show "length (filter (active_for pid aid) (eng_runs (admit p a e))) \<le> 1"
    proof (cases "pid = p \<and> aid = a")
      case True
      with False have "filter (active_for pid aid) (eng_runs e) = []"
        by (simp add: filter_empty_iff_list_ex)
      with False show ?thesis by (simp add: admit_def)
    next
      case ne: False
      then have "\<not> active_for pid aid \<lparr>run_id = eng_next_id e, run_playbook = p, run_alert = a,
                  run_state = Pending, results = [], cancel_requested = False\<rparr>"
        by (auto simp: active_for_def same_pair_def)
      with False inv show ?thesis by (simp add: admit_def one_active_def)
    qed
  qed
qed

lemma one_active_fold_admit:
  "one_active e \<Longrightarrow> one_active (fold (\<lambda>p. admit (playbook_id p) aid) ps e)"
  by (induction ps arbitrary: e) (simp_all add: one_active_admit)

lemma one_active_on_run:
  assumes "one_active e" "on_run rid f e = Inr e'"
    and "\<And>pid aid r. active_for pid aid (f r) \<Longrightarrow> active_for pid aid r"
  shows "one_active e'"
proof -
  have e': "eng_runs e' = map (\<lambda>r. if run_id r = rid then f r else r) (eng_runs e)"
    using assms(2) by (auto simp: on_run_def split: if_splits)
  show ?thesis
    unfolding one_active_def
  proof (intro allI)
    fix pid aid
    have "length (filter (active_for pid aid) (eng_runs e'))
          \<le> length (filter (active_for pid aid) (eng_runs e))"
      unfolding e' by (rule filter_map_le) (auto split: if_splits dest: assms(3))
    also have "\<dots> \<le> 1" using assms(1) by (simp add: one_active_def)
    finally show "length (filter (active_for pid aid) (eng_runs e')) \<le> 1" .
  qed
qed

lemma one_active_step: "one_active e \<Longrightarrow> engine_step e ev = Inr e' \<Longrightarrow> one_active e'"
proof (cases ev)
  case (AlertEvent a)
  assume "one_active e" "engine_step e ev = Inr e'"
  with AlertEvent show ?thesis by (auto simp: one_active_fold_admit)
next
  case (Execute pid aid)
  assume "one_active e" "engine_step e ev = Inr e'"
  with Execute show ?thesis by (auto simp: one_active_admit split: option.splits)
next
  case (Advance rid outs)
  assume "one_active e" "engine_step e ev = Inr e'"
  with Advance show ?thesis by (auto elim!: one_active_on_run dest: active_for_advance)
next
  case (Cancel rid)
  assume "one_active e" "engine_step e ev = Inr e'"
  with Cancel show ?thesis by (auto elim!: one_active_on_run dest: active_for_cancel)
qed

lemma reachable_one_active: "reachable e \<Longrightarrow> one_active e"
proof (induction rule: reachable.induct)
  case (start e)
  then show ?case by (simp add: one_active_def)
next
  case (step e ev e')
  then show ?case by (blast intro: one_active_step)
qed

lemma reachable_run_events:
  "reachable e \<Longrightarrow> run_events e evs = Inr e' \<Longrightarrow> reachable e'"
  by (induction evs arbitrary: e) (auto split: sum.splits intro: reachable.step)

lemma admit_coalesced:
  "list_ex (active_for pid aid) (eng_runs e) \<Longrightarrow> admit pid aid e = e"
  by (simp add: admit_def)

lemma admit_other_pair:
  "(p, a) \<noteq> (pid, aid) \<Longrightarrow>
   filter (same_pair pid aid) (eng_runs (admit p a e)) = filter (same_pair pid aid) (eng_runs e)"
  by (auto simp: admit_def same_pair_def)

lemma admit_keeps_active:
  "list_ex (active_for pid aid) (eng_runs e) \<Longrightarrow> list_ex (active_for pid aid) (eng_runs (admit p a e))"
  by (auto simp: admit_def list_ex_iff)

lemma admit_same_pair_kept:
  "list_ex (active_for pid aid) (eng_runs e) \<Longrightarrow>
   filter (same_pair pid aid) (eng_runs (admit p a e)) = filter (same_pair pid aid) (eng_runs e)"
  by (cases "(p, a) = (pid, aid)") (auto simp: admit_coalesced admit_other_pair)

lemma fold_admit_same_pair_kept:
  "list_ex (active_for pid aid) (eng_runs e) \<Longrightarrow>
   filter (same_pair pid aid) (eng_runs (fold (\<lambda>p. admit (playbook_id p) a) ps e)) =
   filter (same_pair pid aid) (eng_runs e)"
  by (induction ps arbitrary: e) (simp_all add: admit_same_pair_kept admit_keeps_active)



lemma filter_map_eq:
  assumes "\<And>x. P (f x) = P x"
  shows "length (filter P (map f xs)) = length (filter P xs)"
  using assms by (induction xs) auto

lemma same_pair_advance: "same_pair pid aid (advance sts outs r) = same_pair pid aid r"
  using pair_advance [of sts outs r] by (simp add: same_pair_def)

lemma same_pair_cancel: "same_pair pid aid (cancel r) = same_pair pid aid r"
  by (simp add: same_pair_def cancel_def)

lemma on_run_same_pair:
  assumes "on_run rid f e = Inr e'" "\<And>r. same_pair pid aid (f r) = same_pair pid aid r"
  shows "length (filter (same_pair pid aid) (eng_runs e')) =
         length (filter (same_pair pid aid) (eng_runs e))"
proof -
  have e': "eng_runs e' = map (\<lambda>r. if run_id r = rid then f r else r) (eng_runs e)"
    using assms(1) by (auto simp: on_run_def split: if_splits)
  show ?thesis unfolding e' by (rule filter_map_eq) (simp add: assms(2))
qed

lemma coalesced_step:
  assumes "list_ex (active_for pid aid) (eng_runs e)" "engine_step e ev = Inr e'"
  shows "length (filter (same_pair pid aid) (eng_runs e')) =
         length (filter (same_pair pid aid) (eng_runs e))"
proof (cases ev)
  case (AlertEvent a)
  with assms show ?thesis by (auto simp: fold_admit_same_pair_kept)
next
  case (Execute p a)
  with assms show ?thesis by (auto simp: admit_same_pair_kept split: option.splits)
next
  case (Advance rid outs)
  with assms(2) show ?thesis by (auto elim!: on_run_same_pair simp: same_pair_advance)
next
  case (Cancel rid)
  with assms(2) show ?thesis by (auto elim!: on_run_same_pair simp: same_pair_cancel)
qed

text \<open>
  C1. In every state the engine reaches from one without runs, a (playbook, alert) pair
  has at most one active run (Pending or Running). While such a run exists, a manual
  execute request for the pair leaves the engine as it is, and no event, a trigger
  included, changes the number of runs of the pair: the request is coalesced.
\<close>

theorem admission_invariant:
  "(reachable e \<longrightarrow> length (filter (active_for pid aid) (eng_runs e)) \<le> 1)
   \<and> (list_ex (active_for pid aid) (eng_runs e) \<and> find_playbook e pid \<noteq> None \<longrightarrow>
        engine_step e (Execute pid aid) = Inr e)
   \<and> (list_ex (active_for pid aid) (eng_runs e) \<and> engine_step e ev = Inr e' \<longrightarrow>
        length (filter (same_pair pid aid) (eng_runs e')) =
        length (filter (same_pair pid aid) (eng_runs e)))"
proof (intro conjI impI)
  assume "reachable e"
  then have "one_active e" by (rule reachable_one_active)
  then show "length (filter (active_for pid aid) (eng_runs e)) \<le> 1"
    by (simp add: one_active_def)
next
  assume "list_ex (active_for pid aid) (eng_runs e) \<and> find_playbook e pid \<noteq> None"
  then show "engine_step e (Execute pid aid) = Inr e"
    by (auto simp: admit_coalesced)
next
  assume "list_ex (active_for pid aid) (eng_runs e) \<and> engine_step e ev = Inr e'"
  then show "length (filter (same_pair pid aid) (eng_runs e')) =
        length (filter (same_pair pid aid) (eng_runs e))"
    by (blast intro: coalesced_step)
qed

lemmas scenario_defs = scenario_engine_def scenario_playbook_def scenario_alert_def
  scenario_run_def scenario_with_def

lemma scenario_triggered:
  "engine_step scenario_engine (AlertEvent scenario_alert) = Inr (scenario_with (scenario_run Pending []))"
  by (simp add: scenario_defs matching_def admit_def)

lemma scenario_reachable: "reachable (scenario_with (scenario_run Pending []))"
  using reachable.step [OF reachable.start scenario_triggered] by (simp add: scenario_engine_def)

text \<open>
  The theorem in the scenario, after the alert has triggered the playbook: the state is
  reached, the pair has its one Pending run, and a second trigger and a manual execute
  request both leave it so.
\<close>

theorem admission_invariant_witness:
  "reachable (scenario_with (scenario_run Pending []))
   \<and> length (filter (active_for 1 7) (eng_runs (scenario_with (scenario_run Pending [])))) \<le> 1
   \<and> list_ex (active_for 1 7) (eng_runs (scenario_with (scenario_run Pending [])))
   \<and> find_playbook (scenario_with (scenario_run Pending [])) 1 \<noteq> None
   \<and> engine_step (scenario_with (scenario_run Pending [])) (Execute 1 7) =
       Inr (scenario_with (scenario_run Pending []))
   \<and> engine_step (scenario_with (scenario_run Pending [])) (AlertEvent scenario_alert) =
       Inr (scenario_with (scenario_run Pending []))
   \<and> length (filter (same_pair 1 7) (eng_runs (scenario_with (scenario_run Pending [])))) = 1"
proof -
  have a: "list_ex (active_for 1 7) (eng_runs (scenario_with (scenario_run Pending [])))"
    by (simp add: scenario_defs active_for_def same_pair_def active_def)
  have b: "find_playbook (scenario_with (scenario_run Pending [])) 1 \<noteq> None"
    by (simp add: scenario_defs find_playbook_def)
  have c: "engine_step (scenario_with (scenario_run Pending [])) (AlertEvent scenario_alert) =
       Inr (scenario_with (scenario_run Pending []))"
    by (simp add: scenario_defs matching_def admit_def active_for_def same_pair_def active_def)
  have d: "length (filter (same_pair 1 7) (eng_runs (scenario_with (scenario_run Pending [])))) = 1"
    by (simp add: scenario_defs same_pair_def)
  show ?thesis
    using admission_invariant [of "scenario_with (scenario_run Pending [])" 1 7
        "AlertEvent scenario_alert" "scenario_with (scenario_run Pending [])"]
      scenario_reachable a b c d
    by simp
qed

subsection \<open>Step results and cancellation\<close>

lemma attempt_failure_iff:
  "is_failure (fst (attempt outs k n)) \<longleftrightarrow> (\<forall>j\<le>k. is_failure (outs (n + j)))"
proof (induction k arbitrary: n)
  case 0
  show ?case by simp
next
  case (Suc k)
  show ?case
  proof (cases "is_failure (outs n)")
    case True
    have "(\<forall>j\<le>Suc k. is_failure (outs (n + j))) \<longleftrightarrow> (\<forall>j\<le>k. is_failure (outs (Suc n + j)))"
    proof
      assume h: "\<forall>j\<le>Suc k. is_failure (outs (n + j))"
      show "\<forall>j\<le>k. is_failure (outs (Suc n + j))"
      proof (intro allI impI)
        fix j assume "j \<le> k"
        then have "Suc j \<le> Suc k" by simp
        with h have "is_failure (outs (n + Suc j))" by blast
        then show "is_failure (outs (Suc n + j))" by simp
      qed
    next
      assume h: "\<forall>j\<le>k. is_failure (outs (Suc n + j))"
      show "\<forall>j\<le>Suc k. is_failure (outs (n + j))"
      proof (intro allI impI)
        fix j assume j: "j \<le> Suc k"
        show "is_failure (outs (n + j))"
        proof (cases j)
          case 0
          with True show ?thesis by simp
        next
          case (Suc i)
          with j h have "is_failure (outs (Suc n + i))" by simp
          with Suc show ?thesis by simp
        qed
      qed
    qed
    with True Suc.IH [of "Suc n"] show ?thesis by simp
  next
    case False
    then have "\<not> (\<forall>j\<le>Suc k. is_failure (outs (n + j)))" by (auto intro: exI [of _ 0])
    with False show ?thesis by simp
  qed
qed

lemma results_ok_cancelled:
  assumes "results_ok sts r"
  shows "results_ok sts
           (r\<lparr>run_state := Cancelled, results := results r @ skip_rest sts (length (results r))\<rparr>)"
proof -
  let ?k = "length (results r)"
  have k: "?k \<le> length sts"
    and ix: "map step_index (results r) = map step_order (take ?k sts)"
    using assms by (simp_all add: results_ok_def)
  have sk: "map step_index (skip_rest sts ?k) = map step_order (drop ?k sts)"
    by (simp add: skip_rest_def comp_def)
  have len: "length (results r @ skip_rest sts ?k) = length sts"
    using k by (simp add: skip_rest_def)
  have "map step_order (take ?k sts) @ map step_order (drop ?k sts) = map step_order sts"
    by (simp flip: map_append)
  then show ?thesis using ix sk len by (simp add: results_ok_def)
qed

lemma next_step:
  assumes "drop k sts = s # rest"
  shows "k < length sts" and "take (Suc k) sts = take k sts @ [s]"
proof -
  show k: "k < length sts"
  proof (rule ccontr)
    assume "\<not> k < length sts"
    then have "drop k sts = []" by simp
    with assms show False by simp
  qed
  from Cons_nth_drop_Suc [OF k] assms have "sts ! k = s" by simp
  with take_Suc_conv_app_nth [OF k] show "take (Suc k) sts = take k sts @ [s]" by simp
qed

lemma results_ok_executed:
  assumes "results_ok sts r" "drop (length (results r)) sts = s # rest"
  shows "results_ok sts
           (r\<lparr>results := results r @ [\<lparr>step_index = step_order s, result_outcome = out,
                                         attempts = n\<rparr>], run_state := st\<rparr>)"
    and "results_ok sts
           (r\<lparr>results := results r @ [\<lparr>step_index = step_order s, result_outcome = out,
                                         attempts = n\<rparr>]\<rparr>)"
  using assms(1) next_step [OF assms(2)] by (simp_all add: results_ok_def)

lemma results_ok_advance: "results_ok sts r \<Longrightarrow> results_ok sts (advance sts outs r)"
proof -
  assume ok: "results_ok sts r"
  show ?thesis
  proof (cases "\<not> active r")
    case True
    with ok show ?thesis by (simp add: advance_def)
  next
    case act: False
    show ?thesis
    proof (cases "cancel_requested r")
      case True
      with act results_ok_cancelled [OF ok] show ?thesis by (simp add: advance_def)
    next
      case nc: False
      show ?thesis
      proof (cases "run_state r = Pending")
        case True
        with act nc ok show ?thesis by (simp add: advance_def results_ok_def)
      next
        case np: False
        show ?thesis
        proof (cases "drop (length (results r)) sts")
          case Nil
          with act nc np ok show ?thesis by (simp add: advance_def results_ok_def)
        next
          case (Cons s rest)
          obtain out n where at: "attempt outs (step_retry s) 0 = (out, n)"
            by (cases "attempt outs (step_retry s) 0") blast
          from act nc np Cons at results_ok_executed [OF ok Cons]
          show ?thesis by (simp add: advance_def Let_def)
        qed
      qed
    qed
  qed
qed

lemma results_ok_cancel: "results_ok sts r \<Longrightarrow> results_ok sts (cancel r)"
  by (simp add: cancel_def results_ok_def)

lemma run_playbook_cancel: "run_playbook (cancel r) = run_playbook r"
  by (simp add: cancel_def)

lemma run_steps_cong:
  "eng_playbooks e' = eng_playbooks e \<Longrightarrow> run_playbook r' = run_playbook r \<Longrightarrow>
   run_steps e' r' = run_steps e r"
  by (simp add: run_steps_def find_playbook_def)

lemma prefix_inv_admit: "prefix_inv e \<Longrightarrow> prefix_inv (admit p a e)"
proof (cases "list_ex (active_for p a) (eng_runs e)")
  case True
  assume "prefix_inv e"
  with True show ?thesis by (simp add: admit_def)
next
  case False
  assume inv: "prefix_inv e"
  let ?new = "\<lparr>run_id = eng_next_id e, run_playbook = p, run_alert = a,
               run_state = Pending, results = [], cancel_requested = False\<rparr>"
  have runs: "eng_runs (admit p a e) = eng_runs e @ [?new]"
    using False by (simp add: admit_def)
  have pb: "eng_playbooks (admit p a e) = eng_playbooks e" by (simp add: admit_def)
  show ?thesis
    unfolding prefix_inv_def
  proof
    fix r assume "r \<in> set (eng_runs (admit p a e))"
    then have "r \<in> set (eng_runs e) \<or> r = ?new" using runs by auto
    then show "results_ok (run_steps (admit p a e) r) r"
    proof
      assume "r \<in> set (eng_runs e)"
      with inv have "results_ok (run_steps e r) r" by (simp add: prefix_inv_def)
      with run_steps_cong [OF pb, of r r] show ?thesis by simp
    next
      assume "r = ?new"
      then show ?thesis by (simp add: results_ok_def)
    qed
  qed
qed

lemma prefix_inv_fold_admit:
  "prefix_inv e \<Longrightarrow> prefix_inv (fold (\<lambda>p. admit (playbook_id p) aid) ps e)"
  by (induction ps arbitrary: e) (simp_all add: prefix_inv_admit)

lemma prefix_inv_on_run:
  assumes "prefix_inv e" "on_run rid f e = Inr e'"
    and "\<And>r. run_playbook (f r) = run_playbook r"
    and "\<And>r. results_ok (run_steps e r) r \<Longrightarrow> results_ok (run_steps e r) (f r)"
  shows "prefix_inv e'"
proof -
  have e': "e' = e\<lparr>eng_runs := map (\<lambda>r. if run_id r = rid then f r else r) (eng_runs e)\<rparr>"
    using assms(2) by (auto simp: on_run_def split: if_splits)
  have pb: "eng_playbooks e' = eng_playbooks e" using e' by simp
  have rs: "\<And>r. run_steps e' (f r) = run_steps e r" "\<And>r. run_steps e' r = run_steps e r"
  proof -
    fix r
    show "run_steps e' (f r) = run_steps e r" by (rule run_steps_cong [OF pb assms(3)])
    show "run_steps e' r = run_steps e r" by (rule run_steps_cong [OF pb refl])
  qed
  show ?thesis
    unfolding prefix_inv_def
  proof
    fix x assume "x \<in> set (eng_runs e')"
    then have "x \<in> (\<lambda>r. if run_id r = rid then f r else r) ` set (eng_runs e)"
      using e' by simp
    then obtain r where r: "r \<in> set (eng_runs e)" and x: "x = (if run_id r = rid then f r else r)"
      by blast
    from r assms(1) have ok: "results_ok (run_steps e r) r" by (simp add: prefix_inv_def)
    show "results_ok (run_steps e' x) x"
    proof (cases "run_id r = rid")
      case True
      with x ok assms(4) [of r] rs(1) [of r] show ?thesis by simp
    next
      case False
      with x ok rs(2) [of r] show ?thesis by simp
    qed
  qed
qed

lemma prefix_inv_step: "prefix_inv e \<Longrightarrow> engine_step e ev = Inr e' \<Longrightarrow> prefix_inv e'"
proof (cases ev)
  case (AlertEvent a)
  assume "prefix_inv e" "engine_step e ev = Inr e'"
  with AlertEvent show ?thesis by (auto simp: prefix_inv_fold_admit)
next
  case (Execute pid aid)
  assume "prefix_inv e" "engine_step e ev = Inr e'"
  with Execute show ?thesis by (auto simp: prefix_inv_admit split: option.splits)
next
  case (Advance rid outs)
  assume inv: "prefix_inv e" and st: "engine_step e ev = Inr e'"
  from st Advance have "on_run rid (\<lambda>r. advance (run_steps e r) outs r) e = Inr e'" by simp
  show ?thesis
    by (rule prefix_inv_on_run [OF inv \<open>on_run rid (\<lambda>r. advance (run_steps e r) outs r) e = Inr e'\<close>])
       (simp_all add: pair_advance results_ok_advance)
next
  case (Cancel rid)
  assume inv: "prefix_inv e" and st: "engine_step e ev = Inr e'"
  from st Cancel have "on_run rid cancel e = Inr e'" by simp
  show ?thesis
    by (rule prefix_inv_on_run [OF inv \<open>on_run rid cancel e = Inr e'\<close>])
       (simp_all add: run_playbook_cancel results_ok_cancel)
qed

lemma reachable_prefix_inv: "reachable e \<Longrightarrow> prefix_inv e"
proof (induction rule: reachable.induct)
  case (start e)
  then show ?case by (simp add: prefix_inv_def)
next
  case (step e ev e')
  then show ?case by (blast intro: prefix_inv_step)
qed

text \<open>A run that is not active stays as it is, at its place in the run store.\<close>

lemma admit_keeps_runs:
  "k < length (eng_runs e) \<Longrightarrow>
   eng_runs (admit p a e) ! k = eng_runs e ! k \<and> length (eng_runs e) \<le> length (eng_runs (admit p a e))"
  by (simp add: admit_def nth_append)

lemma fold_admit_keeps_runs:
  "k < length (eng_runs e) \<Longrightarrow>
   eng_runs (fold (\<lambda>p. admit (playbook_id p) aid) ps e) ! k = eng_runs e ! k"
proof (induction ps arbitrary: e)
  case Nil
  show ?case by simp
next
  case (Cons p ps)
  from Cons.prems admit_keeps_runs [of k e "playbook_id p" aid]
  have k: "k < length (eng_runs (admit (playbook_id p) aid e))"
    and same: "eng_runs (admit (playbook_id p) aid e) ! k = eng_runs e ! k" by simp_all
  from Cons.IH [OF k] same show ?case by simp
qed

lemma inactive_advance: "\<not> active r \<Longrightarrow> advance sts outs r = r"
  by (simp add: advance_def)

lemma inactive_cancel: "\<not> active r \<Longrightarrow> cancel r = r"
  by (simp add: cancel_def)

lemma on_run_nth:
  "on_run rid f e = Inr e' \<Longrightarrow> k < length (eng_runs e) \<Longrightarrow>
   eng_runs e' ! k = (if run_id (eng_runs e ! k) = rid then f (eng_runs e ! k) else eng_runs e ! k)"
  by (auto simp: on_run_def split: if_splits)

lemma inactive_frozen:
  assumes "engine_step e ev = Inr e'" "k < length (eng_runs e)" "\<not> active (eng_runs e ! k)"
  shows "eng_runs e' ! k = eng_runs e ! k"
proof (cases ev)
  case (AlertEvent a)
  with assms show ?thesis by (auto simp: fold_admit_keeps_runs)
next
  case (Execute pid aid)
  with assms show ?thesis by (auto simp: admit_keeps_runs split: option.splits)
next
  case (Advance rid outs)
  with assms(1) have "on_run rid (\<lambda>r. advance (run_steps e r) outs r) e = Inr e'" by simp
  from on_run_nth [OF this assms(2)] assms(3) show ?thesis by (simp add: inactive_advance)
next
  case (Cancel rid)
  with assms(1) have "on_run rid cancel e = Inr e'" by simp
  from on_run_nth [OF this assms(2)] assms(3) show ?thesis by (simp add: inactive_cancel)
qed

lemma advance_failed:
  assumes "run_state r = Running" "\<not> cancel_requested r"
    "drop (length (results r)) sts = s # rest" "\<forall>j. j \<le> step_retry s \<longrightarrow> is_failure (outs j)"
  shows "run_state (advance sts outs r) = Failed"
    and "map step_index (results (advance sts outs r)) = map step_index (results r) @ [step_order s]"
proof -
  obtain out n where at: "attempt outs (step_retry s) 0 = (out, n)"
    by (cases "attempt outs (step_retry s) 0") blast
  from assms(4) attempt_failure_iff [of outs "step_retry s" 0] at have f: "is_failure out" by simp
  from assms(1-3) at f show "run_state (advance sts outs r) = Failed"
    and "map step_index (results (advance sts outs r)) = map step_index (results r) @ [step_order s]"
    by (simp_all add: advance_def active_def Let_def)
qed

text \<open>Every run is a run of a playbook of the engine.\<close>

lemma find_playbook_admit: "find_playbook (admit p a e) pid = find_playbook e pid"
  by (simp add: find_playbook_def admit_def)

lemma has_playbook_admit:
  assumes "find_playbook e p \<noteq> None" "has_playbook e"
  shows "has_playbook (admit p a e)"
proof (cases "list_ex (active_for p a) (eng_runs e)")
  case True
  with assms(2) show ?thesis by (simp add: admit_def)
next
  case False
  let ?new = "\<lparr>run_id = eng_next_id e, run_playbook = p, run_alert = a,
               run_state = Pending, results = [], cancel_requested = False\<rparr>"
  have runs: "eng_runs (admit p a e) = eng_runs e @ [?new]"
    using False by (simp add: admit_def)
  show ?thesis
    unfolding has_playbook_def find_playbook_admit
  proof
    fix r assume "r \<in> set (eng_runs (admit p a e))"
    then have "r \<in> set (eng_runs e) \<or> r = ?new" using runs by auto
    then show "find_playbook e (run_playbook r) \<noteq> None"
    proof
      assume "r \<in> set (eng_runs e)"
      with assms(2) show ?thesis by (simp add: has_playbook_def)
    next
      assume "r = ?new"
      with assms(1) show ?thesis by simp
    qed
  qed
qed

lemma has_playbook_fold_admit:
  assumes "\<forall>p\<in>set ps. find_playbook e (playbook_id p) \<noteq> None" "has_playbook e"
  shows "has_playbook (fold (\<lambda>p. admit (playbook_id p) aid) ps e)"
  using assms
proof (induction ps arbitrary: e)
  case Nil
  then show ?case by simp
next
  case (Cons p ps)
  from Cons.prems have one: "has_playbook (admit (playbook_id p) aid e)"
    by (simp add: has_playbook_admit)
  from Cons.prems(1)
  have rest: "\<forall>q\<in>set ps. find_playbook (admit (playbook_id p) aid e) (playbook_id q) \<noteq> None"
    by (simp add: find_playbook_admit)
  from Cons.IH [OF rest one] show ?case by simp
qed

lemma matching_found: "p \<in> set (matching e a) \<Longrightarrow> find_playbook e (playbook_id p) \<noteq> None"
  by (auto simp: matching_def find_playbook_def find_None_iff)

lemma has_playbook_on_run:
  assumes "has_playbook e" "on_run rid f e = Inr e'" "\<And>r. run_playbook (f r) = run_playbook r"
  shows "has_playbook e'"
proof -
  have e': "e' = e\<lparr>eng_runs := map (\<lambda>r. if run_id r = rid then f r else r) (eng_runs e)\<rparr>"
    using assms(2) by (auto simp: on_run_def split: if_splits)
  have fp: "\<And>pid. find_playbook e' pid = find_playbook e pid"
    using e' by (simp add: find_playbook_def)
  show ?thesis
    unfolding has_playbook_def fp
  proof
    fix x assume "x \<in> set (eng_runs e')"
    then have "x \<in> (\<lambda>r. if run_id r = rid then f r else r) ` set (eng_runs e)"
      using e' by simp
    then obtain r where r: "r \<in> set (eng_runs e)" and x: "x = (if run_id r = rid then f r else r)"
      by blast
    from r assms(1) have "find_playbook e (run_playbook r) \<noteq> None" by (simp add: has_playbook_def)
    with x assms(3) [of r] show "find_playbook e (run_playbook x) \<noteq> None" by simp
  qed
qed

lemma has_playbook_step: "has_playbook e \<Longrightarrow> engine_step e ev = Inr e' \<Longrightarrow> has_playbook e'"
proof (cases ev)
  case (AlertEvent a)
  assume "has_playbook e" "engine_step e ev = Inr e'"
  with AlertEvent show ?thesis by (auto simp: has_playbook_fold_admit matching_found)
next
  case (Execute pid aid)
  assume "has_playbook e" "engine_step e ev = Inr e'"
  with Execute show ?thesis by (auto simp: has_playbook_admit split: option.splits)
next
  case (Advance rid outs)
  assume inv: "has_playbook e" and st: "engine_step e ev = Inr e'"
  from st Advance have "on_run rid (\<lambda>r. advance (run_steps e r) outs r) e = Inr e'" by simp
  from has_playbook_on_run [OF inv this] show ?thesis by (simp add: pair_advance)
next
  case (Cancel rid)
  assume inv: "has_playbook e" and st: "engine_step e ev = Inr e'"
  from st Cancel have "on_run rid cancel e = Inr e'" by simp
  from has_playbook_on_run [OF inv this] show ?thesis by (simp add: run_playbook_cancel)
qed

lemma reachable_has_playbook: "reachable e \<Longrightarrow> has_playbook e"
proof (induction rule: reachable.induct)
  case (start e)
  then show ?case by (simp add: has_playbook_def)
next
  case (step e ev e')
  then show ?case by (blast intro: has_playbook_step)
qed

text \<open>In a sorted sequence, a prefix that holds an element holds the one before it.\<close>

lemma sorted_prefix_down:
  assumes "sorted os" "Suc j < length os" "os ! Suc j \<in> set (take k os)"
  shows "os ! j \<in> set (take k os)"
proof (cases "j < k")
  case True
  with assms(2) have "take k os ! j = os ! j" and "j < length (take k os)" by simp_all
  then show ?thesis by (metis nth_mem)
next
  case False
  from assms(3) obtain m where m: "m < length (take k os)" and eq: "take k os ! m = os ! Suc j"
    by (auto simp: in_set_conv_nth)
  from m have mk: "m < k" and ml: "m < length os" by simp_all
  with eq have eq': "os ! m = os ! Suc j" by simp
  from False mk have mj: "m \<le> j" by simp
  from assms(1,2) mj have "os ! m \<le> os ! j" by (simp add: sorted_nth_mono)
  moreover from assms(1,2) have "os ! j \<le> os ! Suc j" by (simp add: sorted_nth_mono)
  ultimately have "os ! j = os ! m" using eq' by simp
  with m mk ml show ?thesis by (metis nth_mem nth_take)
qed

lemma ordered_steps_sorted:
  "sorted (map step_order (ordered_steps p))" "mset (ordered_steps p) = mset (steps p)"
  by (simp_all add: ordered_steps_def)

text \<open>
  C2. For every run of every state the engine reaches, the run has a playbook, whose step
  sequence is its steps put in ascending order index; the step indices of the run's
  results are the order indices of the first steps of that sequence, a prefix of it and
  ascending; and a result for a step of the sequence exists only if one exists for the
  step before it. When the next step fails at every attempt of its retry budget, the run
  is Failed with the result of that step as its last; and no event changes a Failed run,
  so no later step produces a result.
\<close>

theorem step_results_prefix:
  assumes "reachable e" "r \<in> set (eng_runs e)"
  shows "(\<exists>p. find_playbook e (run_playbook r) = Some p
            \<and> run_steps e r = ordered_steps p
            \<and> mset (run_steps e r) = mset (steps p))
    \<and> sorted (map step_order (run_steps e r))
    \<and> map step_index (results r) = map step_order (take (length (results r)) (run_steps e r))
    \<and> length (results r) \<le> length (run_steps e r)
    \<and> prefix (map step_index (results r)) (map step_order (run_steps e r))
    \<and> sorted (map step_index (results r))
    \<and> (Suc j < length (run_steps e r)
         \<and> step_order (run_steps e r ! Suc j) \<in> set (map step_index (results r))
        \<longrightarrow> step_order (run_steps e r ! j) \<in> set (map step_index (results r)))
    \<and> (run_state r = Running \<and> \<not> cancel_requested r
         \<and> drop (length (results r)) (run_steps e r) = s # rest
         \<and> (\<forall>j. j \<le> step_retry s \<longrightarrow> is_failure (outs j))
        \<longrightarrow> run_state (advance (run_steps e r) outs r) = Failed
            \<and> map step_index (results (advance (run_steps e r) outs r)) =
                map step_index (results r) @ [step_order s])
    \<and> (run_state r = Failed \<and> k < length (eng_runs e) \<and> eng_runs e ! k = r
         \<and> engine_step e ev = Inr e'
        \<longrightarrow> eng_runs e' ! k = r)"
proof -
  let ?sts = "run_steps e r"
  let ?os = "map step_order ?sts"
  let ?n = "length (results r)"
  from assms have "find_playbook e (run_playbook r) \<noteq> None"
    using reachable_has_playbook [of e] by (simp add: has_playbook_def)
  then obtain p where p: "find_playbook e (run_playbook r) = Some p" by blast
  then have rs: "?sts = ordered_steps p" by (simp add: run_steps_def)
  have pb: "\<exists>p. find_playbook e (run_playbook r) = Some p
            \<and> run_steps e r = ordered_steps p \<and> mset (run_steps e r) = mset (steps p)"
    using p rs ordered_steps_sorted(2) [of p] by simp
  have so: "sorted ?os" using rs ordered_steps_sorted(1) [of p] by simp
  from assms have ok: "results_ok ?sts r"
    using reachable_prefix_inv [of e] by (simp add: prefix_inv_def)
  then have ix: "map step_index (results r) = map step_order (take ?n ?sts)"
    and len: "?n \<le> length ?sts"
    by (simp_all add: results_ok_def)
  have ix': "map step_index (results r) = take ?n ?os" using ix by (simp add: take_map)
  have pre: "prefix (map step_index (results r)) ?os"
    unfolding ix' by (rule take_is_prefix)
  have sr: "sorted (map step_index (results r))"
    unfolding ix' using so by (rule sorted_wrt_take)
  have down: "Suc j < length ?sts \<and> step_order (?sts ! Suc j) \<in> set (map step_index (results r))
        \<longrightarrow> step_order (?sts ! j) \<in> set (map step_index (results r))"
  proof
    assume h: "Suc j < length ?sts \<and> step_order (?sts ! Suc j) \<in> set (map step_index (results r))"
    then have l: "Suc j < length ?os" and m: "?os ! Suc j \<in> set (take ?n ?os)"
      using ix' by simp_all
    from sorted_prefix_down [OF so l m] have "?os ! j \<in> set (take ?n ?os)" .
    with h ix' show "step_order (?sts ! j) \<in> set (map step_index (results r))" by simp
  qed
  have fail: "run_state r = Running \<and> \<not> cancel_requested r
         \<and> drop (length (results r)) ?sts = s # rest
         \<and> (\<forall>j. j \<le> step_retry s \<longrightarrow> is_failure (outs j))
        \<longrightarrow> run_state (advance ?sts outs r) = Failed
            \<and> map step_index (results (advance ?sts outs r)) =
                map step_index (results r) @ [step_order s]"
    using advance_failed [of r ?sts s rest outs] by blast
  have frozen: "run_state r = Failed \<and> k < length (eng_runs e) \<and> eng_runs e ! k = r
         \<and> engine_step e ev = Inr e'
        \<longrightarrow> eng_runs e' ! k = r"
    using inactive_frozen [of e ev e' k] by (auto simp: active_def)
  from pb so ix len pre sr down fail frozen show ?thesis by blast
qed

lemma scenario_steps: "run_steps (scenario_with (scenario_run st rs)) (scenario_run st' rs') =
  [\<lparr>step_order = 1, step_action = QuarantineHost, step_params = [],
     step_timeout = None, step_retry = 0\<rparr>,
   \<lparr>step_order = 2, step_action = Notify, step_params = [],
     step_timeout = None, step_retry = 2\<rparr>]"
  by (simp add: run_steps_def find_playbook_def scenario_defs ordered_steps_def)

lemma scenario_started:
  "engine_step (scenario_with (scenario_run Pending [])) (Advance 0 outs) =
     Inr (scenario_with (scenario_run Running []))"
  by (simp add: scenario_defs on_run_def advance_def active_def)

lemma scenario_first_step:
  "engine_step (scenario_with (scenario_run Running [])) (Advance 0 (\<lambda>n. Success)) =
     Inr (scenario_with (scenario_run Running [first_result]))"
  using scenario_steps [of Running "[]" Running "[]"]
  by (simp add: scenario_with_def scenario_run_def on_run_def advance_def active_def
      is_failure_def first_result_def)

lemma scenario_second_step_fails:
  "engine_step (scenario_with (scenario_run Running [first_result])) (Advance 0 (\<lambda>n. Failure)) =
     Inr (scenario_with (scenario_run Failed
        [first_result, \<lparr>step_index = 2, result_outcome = Failure, attempts = 3\<rparr>]))"
  using scenario_steps [of Running "[first_result]" Running "[first_result]"]
  by (simp add: scenario_with_def scenario_run_def on_run_def advance_def active_def
      is_failure_def first_result_def numeral_2_eq_2)

lemma scenario_running_reachable: "reachable (scenario_with (scenario_run Running [first_result]))"
  using reachable.step [OF reachable.step [OF scenario_reachable scenario_started]
      scenario_first_step] .

lemma scenario_failed_reachable:
  "reachable (scenario_with (scenario_run Failed
        [first_result, \<lparr>step_index = 2, result_outcome = Failure, attempts = 3\<rparr>]))"
  using reachable.step [OF scenario_running_reachable scenario_second_step_fails] .

text \<open>
  The theorem in the scenario, whose playbook holds its two steps against their order.
  When the first step (order index 1) has succeeded, the state is reached, the results are
  the prefix of length one of the order indices 1, 2, and a notify step that fails at all
  three attempts makes the run Failed. In that Failed state the results are those of both
  steps, the one of the first step is there with the one of the second, and a cancel
  request leaves the run as it is.
\<close>

theorem step_results_prefix_witness:
  "reachable (scenario_with (scenario_run Running [first_result]))
   \<and> scenario_run Running [first_result]
        \<in> set (eng_runs (scenario_with (scenario_run Running [first_result])))
   \<and> map step_order (steps scenario_playbook) = [2, 1]
   \<and> map step_order (run_steps (scenario_with (scenario_run Running [first_result]))
                        (scenario_run Running [first_result])) = [1, 2]
   \<and> map step_index (results (scenario_run Running [first_result])) = [1]
   \<and> prefix (map step_index (results (scenario_run Running [first_result])))
        (map step_order (run_steps (scenario_with (scenario_run Running [first_result]))
                           (scenario_run Running [first_result])))
   \<and> drop 1 (run_steps (scenario_with (scenario_run Running [first_result]))
                 (scenario_run Running [first_result])) =
        [\<lparr>step_order = 2, step_action = Notify, step_params = [],
          step_timeout = None, step_retry = 2\<rparr>]
   \<and> (\<forall>j. is_failure ((\<lambda>n. Failure) j))
   \<and> run_state (advance (run_steps (scenario_with (scenario_run Running [first_result]))
                            (scenario_run Running [first_result]))
                  (\<lambda>n. Failure) (scenario_run Running [first_result])) = Failed
   \<and> reachable (scenario_with (scenario_run Failed
        [first_result, \<lparr>step_index = 2, result_outcome = Failure, attempts = 3\<rparr>]))
   \<and> map step_index (results (scenario_run Failed
        [first_result, \<lparr>step_index = 2, result_outcome = Failure, attempts = 3\<rparr>])) = [1, 2]
   \<and> engine_step (scenario_with (scenario_run Failed
        [first_result, \<lparr>step_index = 2, result_outcome = Failure, attempts = 3\<rparr>])) (Cancel 0) =
      Inr (scenario_with (scenario_run Failed
        [first_result, \<lparr>step_index = 2, result_outcome = Failure, attempts = 3\<rparr>]))
   \<and> step_order (run_steps (scenario_with (scenario_run Failed
        [first_result, \<lparr>step_index = 2, result_outcome = Failure, attempts = 3\<rparr>]))
          (scenario_run Failed
        [first_result, \<lparr>step_index = 2, result_outcome = Failure, attempts = 3\<rparr>]) ! 0)
        \<in> set (map step_index (results (scenario_run Failed
        [first_result, \<lparr>step_index = 2, result_outcome = Failure, attempts = 3\<rparr>])))"
proof -
  let ?r = "scenario_run Running [first_result]"
  let ?e = "scenario_with ?r"
  let ?f = "scenario_run Failed
        [first_result, \<lparr>step_index = 2, result_outcome = Failure, attempts = 3\<rparr>]"
  let ?ef = "scenario_with ?f"
  let ?s = "\<lparr>step_order = 2, step_action = Notify, step_params = [],
          step_timeout = None, step_retry = 2\<rparr>"
  have mem: "?r \<in> set (eng_runs ?e)" "?f \<in> set (eng_runs ?ef)"
    by (simp_all add: scenario_with_def)
  have st: "run_state ?r = Running" "\<not> cancel_requested ?r" "length (results ?r) = 1"
    "map step_index (results ?r) = [1]" "map step_index (results ?f) = [1, 2]"
    "run_state ?f = Failed" "(0::nat) < length (eng_runs ?ef)" "eng_runs ?ef ! 0 = ?f"
    by (simp_all add: scenario_run_def scenario_with_def first_result_def)
  have steps: "run_steps ?e ?r =
     [\<lparr>step_order = 1, step_action = QuarantineHost, step_params = [],
       step_timeout = None, step_retry = 0\<rparr>, ?s]"
    "run_steps ?ef ?f =
     [\<lparr>step_order = 1, step_action = QuarantineHost, step_params = [],
       step_timeout = None, step_retry = 0\<rparr>, ?s]"
    by (rule scenario_steps)+
  have stored: "map step_order (steps scenario_playbook) = [2, 1]"
    by (simp add: scenario_playbook_def)
  have dr: "drop (length (results ?r)) (run_steps ?e ?r) = ?s # []"
    unfolding steps st(3) by simp
  have fl: "\<forall>j. j \<le> step_retry ?s \<longrightarrow> is_failure ((\<lambda>n. Failure) j)"
    by (simp add: is_failure_def)
  have cn: "engine_step ?ef (Cancel 0) = Inr ?ef"
    by (simp add: scenario_with_def scenario_run_def on_run_def cancel_def active_def)
  from step_results_prefix [OF scenario_running_reachable mem(1), of 0 ?s "[]" "\<lambda>n. Failure"]
    st(1,2) dr fl
  have a: "prefix (map step_index (results ?r)) (map step_order (run_steps ?e ?r))"
    and b: "run_state (advance (run_steps ?e ?r) (\<lambda>n. Failure) ?r) = Failed"
    by blast+
  from step_results_prefix [OF scenario_failed_reachable mem(2), of 0 _ _ _ 0 "Cancel 0" ?ef]
    st(6,7,8) cn
  have c: "Suc 0 < length (run_steps ?ef ?f)
         \<and> step_order (run_steps ?ef ?f ! Suc 0) \<in> set (map step_index (results ?f))
        \<longrightarrow> step_order (run_steps ?ef ?f ! 0) \<in> set (map step_index (results ?f))"
    and d: "eng_runs ?ef ! 0 = ?f"
    by blast+
  have c': "Suc 0 < length (run_steps ?ef ?f)
         \<and> step_order (run_steps ?ef ?f ! Suc 0) \<in> set (map step_index (results ?f))"
    unfolding steps(2) st(5) by simp
  from c c' have e: "step_order (run_steps ?ef ?f ! 0) \<in> set (map step_index (results ?f))"
    by blast
  from a b e scenario_running_reachable scenario_failed_reachable mem(1) stored dr st(3,4,5) cn
  show ?thesis
    by (simp add: steps(1) is_failure_def)
qed

lemma list_ex_nth: "k < length xs \<Longrightarrow> P (xs ! k) \<Longrightarrow> list_ex P xs"
  by (auto simp: list_ex_iff)

lemma cancel_then_advance:
  assumes "active r"
  shows "run_state (advance sts outs (cancel r)) = Cancelled"
    and "results (advance sts outs (cancel r)) = results r @ skip_rest sts (length (results r))"
  using assms by (simp_all add: cancel_def advance_def active_def)

lemma skip_rest_skipped:
  "list_all (\<lambda>x. result_outcome x = Skipped) (skip_rest sts k)"
  "map step_index (skip_rest sts k) = map step_order (drop k sts)"
  by (simp_all add: skip_rest_def list_all_iff comp_def)

lemma run_id_cancel: "run_id (cancel r) = run_id r"
  by (simp add: cancel_def)

lemma engine_cancel_then_advance:
  assumes k: "k < length (eng_runs e)" and act: "active (eng_runs e ! k)"
  shows "map_sum id (\<lambda>e2. (run_state (eng_runs e2 ! k), results (eng_runs e2 ! k)))
           (run_events e [Cancel (run_id (eng_runs e ! k)), Advance (run_id (eng_runs e ! k)) outs])
         = Inr (Cancelled, results (eng_runs e ! k) @
                  skip_rest (run_steps e (eng_runs e ! k)) (length (results (eng_runs e ! k))))"
proof -
  let ?r = "eng_runs e ! k"
  let ?rid = "run_id ?r"
  let ?e1 = "e\<lparr>eng_runs := map (\<lambda>r. if run_id r = ?rid then cancel r else r) (eng_runs e)\<rparr>"
  have ex: "list_ex (\<lambda>r. run_id r = ?rid) (eng_runs e)"
    using k by (rule list_ex_nth) simp
  have s1: "engine_step e (Cancel ?rid) = Inr ?e1"
    using ex by (simp add: on_run_def)
  have k1: "k < length (eng_runs ?e1)" using k by simp
  have r1: "eng_runs ?e1 ! k = cancel ?r" using k by simp
  have "run_id (eng_runs ?e1 ! k) = ?rid" by (simp only: r1 run_id_cancel)
  with k1 have ex1: "list_ex (\<lambda>r. run_id r = ?rid) (eng_runs ?e1)"
    by (rule list_ex_nth)
  let ?e2 = "?e1\<lparr>eng_runs := map (\<lambda>r. if run_id r = ?rid then advance (run_steps ?e1 r) outs r else r)
                (eng_runs ?e1)\<rparr>"
  have s2: "engine_step ?e1 (Advance ?rid outs) = Inr ?e2"
    using ex1 by (simp only: engine_step.simps on_run_def if_True)
  have pb: "eng_playbooks ?e1 = eng_playbooks e" by simp
  have rs: "run_steps ?e1 (cancel ?r) = run_steps e ?r"
    by (rule run_steps_cong [OF pb run_playbook_cancel])
  have "eng_runs ?e2 ! k = advance (run_steps ?e1 (cancel ?r)) outs (cancel ?r)"
    using k1 r1 by (simp add: run_id_cancel)
  then have r2: "eng_runs ?e2 ! k = advance (run_steps e ?r) outs (cancel ?r)"
    by (simp only: rs)
  have ev: "run_events e [Cancel ?rid, Advance ?rid outs] = Inr ?e2"
    by (simp only: run_events.simps s1 s2 sum.case)
  show ?thesis
    by (simp only: ev map_sum.simps r2 cancel_then_advance [OF act] id_apply)
qed

lemma engine_cancel_terminal:
  assumes k: "k < length (eng_runs e)" and act: "\<not> active (eng_runs e ! k)"
  shows "map_sum id (\<lambda>e1. eng_runs e1 ! k) (engine_step e (Cancel (run_id (eng_runs e ! k))))
         = Inr (eng_runs e ! k)"
proof -
  have ex: "list_ex (\<lambda>r. run_id r = run_id (eng_runs e ! k)) (eng_runs e)"
    using k by (rule list_ex_nth) simp
  then show ?thesis using k act by (simp add: on_run_def inactive_cancel)
qed

text \<open>
  C3. Cancelling an active run (Pending or Running) sets its flag, and the worker's next
  move, whatever the handlers would report, makes it Cancelled with its results followed
  by one Skipped result for each step not executed, under that step's order index; this
  for the run alone and for the run at its place in the engine. Cancelling a run that is
  Completed, Failed or Cancelled returns the run unchanged and is no error.
\<close>

theorem cancel_run:
  "(active r \<longrightarrow>
      run_state (advance sts outs (cancel r)) = Cancelled
      \<and> results (advance sts outs (cancel r)) = results r @ skip_rest sts (length (results r))
      \<and> list_all (\<lambda>x. result_outcome x = Skipped) (skip_rest sts (length (results r)))
      \<and> length (skip_rest sts (length (results r))) = length sts - length (results r)
      \<and> map step_index (skip_rest sts (length (results r))) =
          map step_order (drop (length (results r)) sts))
   \<and> (\<not> active r \<longrightarrow> cancel r = r)
   \<and> (k < length (eng_runs e) \<and> active (eng_runs e ! k) \<longrightarrow>
        map_sum id (\<lambda>e2. (run_state (eng_runs e2 ! k), results (eng_runs e2 ! k)))
          (run_events e [Cancel (run_id (eng_runs e ! k)), Advance (run_id (eng_runs e ! k)) outs])
        = Inr (Cancelled, results (eng_runs e ! k) @
                 skip_rest (run_steps e (eng_runs e ! k)) (length (results (eng_runs e ! k)))))
   \<and> (k < length (eng_runs e) \<and> \<not> active (eng_runs e ! k) \<longrightarrow>
        map_sum id (\<lambda>e1. eng_runs e1 ! k) (engine_step e (Cancel (run_id (eng_runs e ! k))))
        = Inr (eng_runs e ! k))"
proof -
  have n: "length (skip_rest sts (length (results r))) = length sts - length (results r)"
    by (simp add: skip_rest_def)
  from n cancel_then_advance [of r sts outs] skip_rest_skipped [of sts "length (results r)"]
    inactive_cancel [of r] engine_cancel_then_advance [of k e outs] engine_cancel_terminal [of k e]
  show ?thesis by blast
qed

text \<open>
  The theorem in the scenario: cancelled after its first step, the run is Cancelled with
  the notify step (order index 2) Skipped; cancelling a Failed run leaves it as it is.
\<close>

theorem cancel_run_witness:
  "active (scenario_run Running [first_result])
   \<and> run_state (advance (ordered_steps scenario_playbook) (\<lambda>n. Success)
                  (cancel (scenario_run Running [first_result]))) = Cancelled
   \<and> results (advance (ordered_steps scenario_playbook) (\<lambda>n. Success)
                (cancel (scenario_run Running [first_result]))) =
       [first_result, \<lparr>step_index = 2, result_outcome = Skipped, attempts = 0\<rparr>]
   \<and> \<not> active (scenario_run Failed [first_result])
   \<and> cancel (scenario_run Failed [first_result]) = scenario_run Failed [first_result]
   \<and> (0::nat) < length (eng_runs (scenario_with (scenario_run Running [first_result])))
   \<and> map_sum id (\<lambda>e2. (run_state (eng_runs e2 ! 0), results (eng_runs e2 ! 0)))
        (run_events (scenario_with (scenario_run Running [first_result]))
           [Cancel 0, Advance 0 (\<lambda>n. Success)]) =
       Inr (Cancelled, [first_result, \<lparr>step_index = 2, result_outcome = Skipped, attempts = 0\<rparr>])
   \<and> map_sum id (\<lambda>e1. eng_runs e1 ! 0)
        (engine_step (scenario_with (scenario_run Failed [first_result])) (Cancel 0)) =
       Inr (scenario_run Failed [first_result])"
proof -
  let ?r = "scenario_run Running [first_result]"
  let ?f = "scenario_run Failed [first_result]"
  let ?sts = "ordered_steps scenario_playbook"
  have act: "active ?r" "\<not> active ?f"
    by (simp_all add: active_def scenario_run_def)
  have k: "(0::nat) < length (eng_runs (scenario_with ?r))"
    "(0::nat) < length (eng_runs (scenario_with ?f))"
    "eng_runs (scenario_with ?r) ! 0 = ?r" "eng_runs (scenario_with ?f) ! 0 = ?f"
    "run_id ?r = 0" "run_id ?f = 0" "results ?r = [first_result]"
    by (simp_all add: scenario_with_def scenario_run_def)
  have sk: "skip_rest ?sts (Suc 0) =
      [\<lparr>step_index = 2, result_outcome = Skipped, attempts = 0\<rparr>]"
    by (simp add: skip_rest_def ordered_steps_def scenario_playbook_def)
  have rs: "run_steps (scenario_with ?r) ?r = ?sts"
    by (simp add: run_steps_def find_playbook_def scenario_with_def scenario_run_def
        scenario_playbook_def)
  from cancel_run [of ?r ?sts "\<lambda>n. Success" 0 "scenario_with ?r"] act(1) k(1,3)
  have a: "run_state (advance ?sts (\<lambda>n. Success) (cancel ?r)) = Cancelled"
    and b: "results (advance ?sts (\<lambda>n. Success) (cancel ?r)) =
            results ?r @ skip_rest ?sts (length (results ?r))"
    and c: "map_sum id (\<lambda>e2. (run_state (eng_runs e2 ! 0), results (eng_runs e2 ! 0)))
        (run_events (scenario_with ?r) [Cancel (run_id ?r), Advance (run_id ?r) (\<lambda>n. Success)]) =
       Inr (Cancelled, results ?r @ skip_rest (run_steps (scenario_with ?r) ?r) (length (results ?r)))"
    by simp_all
  from cancel_run [of ?f ?sts "\<lambda>n. Success" 0 "scenario_with ?f"] act(2) k(2,4)
  have d: "cancel ?f = ?f"
    and e: "map_sum id (\<lambda>e1. eng_runs e1 ! 0) (engine_step (scenario_with ?f) (Cancel (run_id ?f)))
            = Inr ?f"
    by simp_all
  from act k(1) a b c d e show ?thesis
    unfolding rs k(5,6,7) by (simp add: sk)
qed

end
